theory Spec2Isabelle
  imports
    Main
    "HOL-Library.Word"
    "HOL-Library.Char_ord"
    "HOL-Library.List_Lexorder"
    "HOL-Library.Multiset"
begin

unbundle bit_operations_syntax

section \<open>Common data: bytes, modes, errors\<close>

text \<open>
  A Go \<^verbatim>\<open>string\<close> and a \<^verbatim>\<open>[]byte\<close> are both sequences of 8-bit bytes, and so is a
  HOL \<^typ>\<open>string\<close>; the conversions \<^verbatim>\<open>[]byte(s)\<close> and \<^verbatim>\<open>string(b)\<close> are
  the identity. A nil slice is the empty list. \<^verbatim>\<open>os.FileMode\<close> is a \<^verbatim>\<open>uint32\<close>.
\<close>

type_synonym bytes = string
type_synonym FileMode = "32 word"

text \<open>
  Errors as values. \<open>NotExist\<close> is the operating system's "no such file" error for a
  path, \<open>Exist\<close> its "file exists" or "directory not empty" error, and \<open>OSError\<close> any
  other failure of a system call; \<open>Errorf\<close> is
  \<^verbatim>\<open>errors.Errorf\<close> and \<open>Wrap\<close> is \<^verbatim>\<open>errors.Wrap\<close>/\<^verbatim>\<open>errors.Wrapf\<close> (the message keeps
  the format's fixed text).
\<close>

datatype error =
    NotExist string
  | Exist string
  | OSError string
  | Errorf string
  | Wrap error string
  | packageNotFoundErr string
  | moduleNotFoundErr string string

text \<open>
  \<^verbatim>\<open>os.IsNotExist\<close> looks through the system-call error wrappers of package \<^verbatim>\<open>os\<close>
  only; an error wrapped by \<^verbatim>\<open>errors.Wrap\<close> is not recognised.
\<close>

fun IsNotExist :: "error \<Rightarrow> bool" where
  "IsNotExist (NotExist p) = True"
| "IsNotExist e = False"

fun IsExist :: "error \<Rightarrow> bool" where
  "IsExist (Exist p) = True"
| "IsExist e = False"

section \<open>Hex encoding and string replacement\<close>

definition hexDigit :: "nat \<Rightarrow> char" where
  "hexDigit n = ''0123456789abcdef'' ! (n mod 16)"

definition EncodeToString :: "bytes \<Rightarrow> string" where
  "EncodeToString bs =
     concat (map (\<lambda>b. [hexDigit (of_char b div 16), hexDigit (of_char b mod 16)]) bs)"

text \<open>
  \<^verbatim>\<open>strings.ReplaceAll(s, old, new)\<close>: the non-overlapping occurrences of \<open>old\<close> are
  replaced from left to right. For an empty \<open>old\<close> Go inserts \<open>new\<close> before every
  character and at the end; \<open>Sub.freezeArg\<close> never passes an empty pattern.
\<close>

function ReplaceAll :: "string \<Rightarrow> string \<Rightarrow> string \<Rightarrow> string" where
  "ReplaceAll [] old new = (if old = [] then new else [])"
| "ReplaceAll (c # cs) old new =
     (if old = [] then new @ c # ReplaceAll cs old new
      else if take (length old) (c # cs) = old
        then new @ ReplaceAll (drop (length old) (c # cs)) old new
      else c # ReplaceAll cs old new)"
  by pat_completeness auto
termination
  by (relation "measure (\<lambda>(s, old, new). length s)") auto

section \<open>The hash sink\<close>

text \<open>
  A \<^verbatim>\<open>hash.Hash\<close> is a stream digest: \<^verbatim>\<open>Write\<close> absorbs bytes and \<^verbatim>\<open>Sum(nil)\<close> returns
  the digest of everything absorbed so far without changing the state. The state of a
  hasher is therefore the byte stream it has absorbed; the factory \<^verbatim>\<open>newHasher\<close> of the
  freezer returns a fresh hasher, and is represented by its digest function.
\<close>

type_synonym hasher = bytes

definition Write :: "hasher \<Rightarrow> bytes \<Rightarrow> hasher" where
  "Write h bs = h @ bs"

section \<open>The system interface of the freezer\<close>

text \<open>
  The library and system calls of the freezer: \<^verbatim>\<open>filepath.Join\<close> of two elements,
  \<^verbatim>\<open>filepath.Rel\<close>, \<^verbatim>\<open>doublestar.Glob\<close> (the matches in the order of enumeration), opening
  a file (its mode and its content, or the error of \<^verbatim>\<open>os.Open\<close>/\<^verbatim>\<open>Stat\<close>), and the
  length of the buffer that \<^verbatim>\<open>io.Copy\<close> hands to \<^verbatim>\<open>Read\<close> (32768 in Go's \<^verbatim>\<open>io.Copy\<close>).
\<close>

record sys =
  Join :: "string \<Rightarrow> string \<Rightarrow> string"
  Rel :: "string \<Rightarrow> string \<Rightarrow> error + string"
  Glob :: "string \<Rightarrow> error + string list"
  Open :: "string \<Rightarrow> error + (FileMode \<times> bytes)"
  bufLen :: nat

subsection \<open>HashingReader and the copy loop\<close>

text \<open>
  \<^verbatim>\<open>(*os.File).Read(buf)\<close> on the remaining bytes \<open>rd\<close> of a file: it fills a prefix
  of \<open>buf\<close>, and reports end of file (with no bytes) once nothing remains. The result
  is the count, the end-of-file flag, the buffer and the remaining bytes.
\<close>

definition File_Read :: "bytes \<Rightarrow> bytes \<Rightarrow> nat \<times> bool \<times> bytes \<times> bytes" where
  "File_Read rd buf =
     (let n = min (length buf) (length rd)
      in (n, n = 0 \<and> buf \<noteq> [], take n rd @ drop n buf, drop n rd))"

text \<open>
  \<^verbatim>\<open>HashingReader.Read\<close>: reads from the underlying reader, then writes \<^verbatim>\<open>buf\<close> (the
  whole buffer, as the source has it) to the hasher. The state is the reader's remaining
  bytes and the hasher.
\<close>

definition HashingReader_Read ::
  "bytes \<times> hasher \<Rightarrow> bytes \<Rightarrow> (nat \<times> bool \<times> bytes) \<times> (bytes \<times> hasher)" where
  "HashingReader_Read hr buf =
     (case File_Read (fst hr) buf of
        (n, err, buf', rd') \<Rightarrow> ((n, err, buf'), (rd', Write (snd hr) buf')))"

text \<open>
  The loop of \<^verbatim>\<open>io.Copy\<close>: read into the buffer, write the \<open>n\<close> bytes read to the
  sink, stop at end of file. (With an empty buffer Go's loop would not advance; \<^verbatim>\<open>io.Copy\<close>
  never allocates one, and the model stops.)
\<close>

function copyBuffer :: "bytes \<times> hasher \<Rightarrow> bytes \<Rightarrow> bytes \<Rightarrow> bytes \<times> (bytes \<times> hasher)" where
  "copyBuffer hr buf w =
     (case HashingReader_Read hr buf of
        ((n, err, buf'), hr') \<Rightarrow>
          (if err \<or> buf = [] then (w @ take n buf', hr')
           else copyBuffer hr' buf' (w @ take n buf')))"
  by pat_completeness auto
termination
  by (relation "measure (\<lambda>(hr, buf, w). length (fst hr))")
     (auto simp: HashingReader_Read_def File_Read_def Let_def min_def
        simp flip: length_greater_0_conv split: if_splits)

declare copyBuffer.simps [simp del]

definition Copy :: "sys \<Rightarrow> bytes \<Rightarrow> bytes \<times> hasher \<Rightarrow> bytes \<times> (bytes \<times> hasher)" where
  "Copy y w hr = copyBuffer hr (replicate (bufLen y) (CHR 0x00)) w"


section \<open>Targets, arguments, derivations\<close>

datatype Derivation = Derivation
  (ID: string)
  (DHash: bytes)
  (Dependencies: "Derivation list")
  (DBuilder: string)
  (DArgs: "string list")
  (DEnv: "string list")

datatype Arg =
    String string
  | Path string
  | GlobGroup "string list"
  | TargetArg Target
  | Sub string "(string \<times> Arg) list"
and Target = Target
  (Name: string)
  (Builder: string)
  (Args: "Arg list")
  (Env: "string list")

record ArgValue =
  Value :: string
  Hash :: bytes
  Derivations :: "Derivation list"

section \<open>The cache seen by the freezer\<close>

text \<open>
  The interface \<^verbatim>\<open>Cache\<close> with the entry table of the repository's in-memory
  implementation: a file callback writes the body to a sink and returns the mode; the name
  callback is evaluated after the body callback, on the state the body callback left
  behind (here: the hasher the callbacks share).
\<close>

type_synonym files = "string \<rightharpoonup> FileMode \<times> bytes"

datatype entry = fileEntry FileMode bytes | dirEntry files

type_synonym cache = "string \<rightharpoonup> entry"

type_synonym CacheFileCallback = "bytes \<Rightarrow> error + (FileMode \<times> bytes \<times> hasher)"

definition NewFileEntry ::
  "cache \<Rightarrow> CacheFileCallback \<Rightarrow> (hasher \<Rightarrow> string) \<Rightarrow> error + (cache \<times> hasher)" where
  "NewFileEntry c cacheFileCallback nameCallback =
     (case cacheFileCallback [] of
        Inl err \<Rightarrow> Inl err
      | Inr (mode, buf, h) \<Rightarrow> Inr (c(nameCallback h \<mapsto> fileEntry mode buf), h))"

definition registerFile ::
  "files \<Rightarrow> string \<Rightarrow> CacheFileCallback \<Rightarrow> error + (files \<times> hasher)" where
  "registerFile fs relpath callback =
     (case callback [] of
        Inl err \<Rightarrow> Inl err
      | Inr (mode, buf, h) \<Rightarrow> Inr (fs(relpath \<mapsto> (mode, buf)), h))"

definition NewDirEntry ::
  "cache \<Rightarrow> (files \<Rightarrow> error + (files \<times> hasher)) \<Rightarrow> (hasher \<Rightarrow> string)
     \<Rightarrow> error + (cache \<times> hasher)" where
  "NewDirEntry c cacheDirCallback nameCallback =
     (case cacheDirCallback Map.empty of
        Inl err \<Rightarrow> Inl err
      | Inr (fs, h) \<Rightarrow> Inr (c(nameCallback h \<mapsto> dirEntry fs), h))"

section \<open>The freezer\<close>

text \<open>
  \<open>newHasher\<close> is the digest function of the hashers that the factory returns: a fresh
  hasher that has absorbed the stream \<open>h\<close> answers \<^verbatim>\<open>Sum(nil)\<close> with \<open>newHasher f h\<close>.
  The cache of the Go struct is threaded through the functions as an explicit state.
\<close>

record freezer =
  packageRoot :: string
  newHasher :: "bytes \<Rightarrow> bytes"
  system :: sys

definition byte :: "FileMode \<Rightarrow> char" where
  "byte m = char_of (unat m)"

definition hashFile :: "sys \<Rightarrow> string \<Rightarrow> string \<Rightarrow> hasher \<Rightarrow> CacheFileCallback" where
  "hashFile y root relPath hasher w =
     (case Open y (Join y root relPath) of
        Inl err \<Rightarrow> Inl err
      | Inr (mode, content) \<Rightarrow>
          (let hasher1 = Write hasher relPath;
               hasher2 = Write hasher1
                 [byte (drop_bit 6 mode AND 7), byte (drop_bit 3 mode AND 7), byte (mode AND 7)]
           in case Copy y w (content, hasher2) of
                (w', hr) \<Rightarrow> Inr (mode, w', snd hr)))"

fun matchesLoop ::
  "sys \<Rightarrow> string \<Rightarrow> string list \<Rightarrow> string set \<Rightarrow> string list \<Rightarrow> error + string list" where
  "matchesLoop y root [] seen paths = Inr paths"
| "matchesLoop y root (glob # gg) seen paths =
     (if glob \<in> seen then matchesLoop y root gg seen paths
      else case Glob y (Join y root glob) of
             Inl err \<Rightarrow> Inl (Wrap err ''Matching pattern'')
           | Inr ms \<Rightarrow> matchesLoop y root gg (insert glob seen) (paths @ ms))"

definition matches :: "sys \<Rightarrow> string list \<Rightarrow> string \<Rightarrow> error + string list" where
  "matches y gg root =
     (case matchesLoop y root gg {} [] of
        Inl err \<Rightarrow> Inl err
      | Inr paths \<Rightarrow> Inr (sort paths))"

fun registerPaths ::
  "freezer \<Rightarrow> string list \<Rightarrow> hasher \<Rightarrow> files \<Rightarrow> error + (files \<times> hasher)" where
  "registerPaths f [] hasher fs = Inr (fs, hasher)"
| "registerPaths f (path # paths) hasher fs =
     (case Rel (system f) (packageRoot f) path of
        Inl err \<Rightarrow> Inl err
      | Inr relPath \<Rightarrow>
          (case registerFile fs relPath (hashFile (system f) (packageRoot f) relPath hasher) of
             Inl err \<Rightarrow> Inl err
           | Inr (fs', hasher') \<Rightarrow> registerPaths f paths hasher' fs'))"

function
  freezeArg :: "freezer \<Rightarrow> Arg \<Rightarrow> cache \<Rightarrow> error + (ArgValue \<times> cache)" and
  freezeTarget :: "freezer \<Rightarrow> Target \<Rightarrow> cache \<Rightarrow> error + ((Derivation \<times> bytes) \<times> cache)" and
  freezeArgs ::
    "freezer \<Rightarrow> Arg list \<Rightarrow> nat \<times> Derivation list \<times> hasher \<times> string list \<Rightarrow> cache
       \<Rightarrow> error + ((Derivation list \<times> hasher \<times> string list) \<times> cache)" and
  freezeSubs ::
    "freezer \<Rightarrow> (string \<times> Arg) list \<Rightarrow> string \<times> Derivation list \<times> hasher \<Rightarrow> cache
       \<Rightarrow> error + ((string \<times> Derivation list \<times> hasher) \<times> cache)"
where
  "freezeArg f (TargetArg t) c =
     (case freezeTarget f t c of
        Inl err \<Rightarrow> Inl err
      | Inr ((d, hash), c') \<Rightarrow>
          Inr (\<lparr>Value = ID d, Hash = hash, Derivations = [d]\<rparr>, c'))"
| "freezeArg f (String s) c =
     (let hasher = Write [] s
      in Inr (\<lparr>Value = s, Hash = newHasher f hasher, Derivations = []\<rparr>, c))"
| "freezeArg f (Path p) c =
     (let cachePath = (\<lambda>hasher. Join (system f) (EncodeToString (newHasher f hasher)) p)
      in case NewFileEntry c (hashFile (system f) (packageRoot f) p []) cachePath of
           Inl err \<Rightarrow> Inl err
         | Inr (c', hasher) \<Rightarrow>
             Inr (\<lparr>Value = cachePath hasher, Hash = newHasher f hasher, Derivations = []\<rparr>, c'))"
| "freezeArg f (GlobGroup gg) c =
     (case matches (system f) gg (packageRoot f) of
        Inl err \<Rightarrow> Inl err
      | Inr paths \<Rightarrow>
          (case NewDirEntry c (registerPaths f paths [])
                  (\<lambda>hasher. EncodeToString (newHasher f hasher)) of
             Inl err \<Rightarrow> Inl err
           | Inr (c', hasher) \<Rightarrow>
               Inr (\<lparr>Value = EncodeToString (newHasher f hasher),
                     Hash = newHasher f hasher, Derivations = []\<rparr>, c')))"
| "freezeArg f (Sub format substitutions) c =
     (let hasher = Write [] format
      in case freezeSubs f substitutions (format, [], hasher) c of
           Inl err \<Rightarrow> Inl err
         | Inr ((message, derivations, hasher'), c') \<Rightarrow>
             Inr (\<lparr>Value = message, Hash = newHasher f hasher',
                   Derivations = derivations\<rparr>, c'))"
| "freezeTarget f (Target name builder args env) c =
     (let hasher = Write (Write [] name) builder;
          hasher = foldl Write hasher env
      in case freezeArgs f args (0, [], hasher, replicate (length args) []) c of
           Inl err \<Rightarrow> Inl err
         | Inr ((dependencies, hasher', frozenArgs), c') \<Rightarrow>
             (let hash = newHasher f hasher'
              in Inr ((Derivation (EncodeToString hash @ ''-'' @ name) [] dependencies
                         builder frozenArgs env, hash), c')))"
| "freezeArgs f [] (i, dependencies, hasher, frozenArgs) c =
     Inr ((dependencies, hasher, frozenArgs), c)"
| "freezeArgs f (arg # args) (i, dependencies, hasher, frozenArgs) c =
     (case freezeArg f arg c of
        Inl err \<Rightarrow> Inl (Wrap err ''Freezing argument'')
      | Inr (argValue, c') \<Rightarrow>
          freezeArgs f args
            (Suc i, dependencies @ Derivations argValue, Write hasher (Hash argValue),
             frozenArgs[i := Value argValue]) c')"
| "freezeSubs f [] (message, derivations, hasher) c =
     Inr ((message, derivations, hasher), c)"
| "freezeSubs f ((key, v) # substitutions) (message, derivations, hasher) c =
     (case freezeArg f v c of
        Inl err \<Rightarrow> Inl (Wrap err ''Freezing substitution'')
      | Inr (val, c') \<Rightarrow>
          freezeSubs f substitutions
            (ReplaceAll message (''${'' @ key @ ''}'') (Value val),
             derivations @ Derivations val,
             Write (Write hasher key) (Hash val)) c')"
  by pat_completeness auto
termination
  by (relation "measure (\<lambda>x. case x of
        Inl (Inl (f, a, c)) \<Rightarrow> size a
      | Inl (Inr (f, t, c)) \<Rightarrow> size t
      | Inr (Inl (f, args, st, c)) \<Rightarrow> size_list size args
      | Inr (Inr (f, subs, st, c)) \<Rightarrow> size_list (size_prod (\<lambda>_. 0) size) subs)")
     auto

definition FreezeTarget :: "freezer \<Rightarrow> Target \<Rightarrow> cache \<Rightarrow> error + (Derivation \<times> cache)" where
  "FreezeTarget f t c =
     (case freezeTarget f t c of
        Inl err \<Rightarrow> Inl err
      | Inr ((d, hash), c') \<Rightarrow> Inr (d, c'))"

subsection \<open>The frozen values of a list of arguments\<close>

text \<open>
  Freezing the arguments one after the other, each on the cache the previous one left:
  the list of their \<open>ArgValue\<close>s, or the error of the first that fails. It names "each
  argument's \<open>ArgValue\<close>" in the statements about \<open>freezeTarget\<close> and \<open>Sub.freezeArg\<close>.
\<close>

fun freezeEach :: "freezer \<Rightarrow> Arg list \<Rightarrow> cache \<Rightarrow> error + (ArgValue list \<times> cache)" where
  "freezeEach f [] c = Inr ([], c)"
| "freezeEach f (arg # args) c =
     (case freezeArg f arg c of
        Inl err \<Rightarrow> Inl err
      | Inr (argValue, c') \<Rightarrow>
          (case freezeEach f args c' of
             Inl err \<Rightarrow> Inl err
           | Inr (argValues, c'') \<Rightarrow> Inr (argValue # argValues, c'')))"

section \<open>Concrete freezers\<close>

text \<open>
  A system with an empty package root, and the two hashers used in examples: the mock of
  the seed scenarios, whose digest is the fixed tag \<open>h\<close>, and a collision-free hasher
  whose digest is the absorbed stream itself.
\<close>

definition testSys :: sys where
  "testSys = \<lparr>Join = (\<lambda>a b. a @ ''/'' @ b),
     Rel = (\<lambda>base targ. Inr (drop (Suc (length base)) targ)),
     Glob = (\<lambda>pattern. Inr []),
     Open = (\<lambda>name. Inl (NotExist name)),
     bufLen = 32768\<rparr>"

definition mockFreezer :: freezer where
  "mockFreezer = \<lparr>packageRoot = ''package-root'', newHasher = (\<lambda>stream. ''h''),
     system = testSys\<rparr>"

definition plainFreezer :: freezer where
  "plainFreezer = \<lparr>packageRoot = ''package-root'', newHasher = (\<lambda>stream. stream),
     system = testSys\<rparr>"

definition trivialTarget :: Target where
  "trivialTarget = Target ''t'' ''/bin/bash'' [String ''-c'', String ''echo hi > $out''] []"

text \<open>
  The package root of \<open>TestPathFreezeArg\<close>: one file \<open>test\<close> with the content \<open>hi!\<close>
  and mode 0644 (\<open>0x1A4\<close>), frozen with the collision-free hasher.
\<close>

definition pathSys :: sys where
  "pathSys = \<lparr>Join = (\<lambda>a b. a @ ''/'' @ b),
     Rel = (\<lambda>base targ. Inr (drop (Suc (length base)) targ)),
     Glob = (\<lambda>pattern. Inr []),
     Open = (\<lambda>name. if name = ''package-root/test'' then Inr (0x1A4, ''hi!'')
                      else Inl (NotExist name)),
     bufLen = 32768\<rparr>"

definition pathFreezer :: freezer where
  "pathFreezer = \<lparr>packageRoot = ''package-root'', newHasher = (\<lambda>stream. stream),
     system = pathSys\<rparr>"



section \<open>The module loader\<close>

text \<open>
  \<^verbatim>\<open>strings.Contains\<close>, \<^verbatim>\<open>strings.HasSuffix\<close> and the split of \<open>parseModule\<close> at the
  first colon (\<^verbatim>\<open>strings.Index\<close>).
\<close>

fun Contains :: "string \<Rightarrow> string \<Rightarrow> bool" where
  "Contains [] substr = (substr = [])"
| "Contains (c # cs) substr = (take (length substr) (c # cs) = substr \<or> Contains cs substr)"

definition HasSuffix :: "string \<Rightarrow> string \<Rightarrow> bool" where
  "HasSuffix s suffix =
     (length suffix \<le> length s \<and> drop (length s - length suffix) s = suffix)"

definition parseModule :: "string \<Rightarrow> string \<times> string" where
  "parseModule s =
     (if CHR '':'' \<in> set s
      then (takeWhile (\<lambda>ch. ch \<noteq> CHR '':'') s, tl (dropWhile (\<lambda>ch. ch \<noteq> CHR '':'') s))
      else ('''', s))"

text \<open>
  The globals of a module (\<^verbatim>\<open>starlark.StringDict\<close>) map names to values; a value is
  kept as its rendering. A cache entry holds the globals and the error of an executed
  module. The load cache is a Go map to entry pointers: an identifier is absent
  (\<open>None\<close>), bound to \<^verbatim>\<open>nil\<close> while its load is in progress (\<open>Some None\<close>), or bound
  to its entry.
\<close>

type_synonym StringDict = "string \<rightharpoonup> string"

datatype cacheEntry = cacheEntry (entry_globals: StringDict) (entry_err: "error option")

type_synonym loadCache = "string \<rightharpoonup> cacheEntry option"

text \<open>
  What the interpreter does with a module file, as far as the loader is concerned: it
  executes the module's load statements in order, each through the thread's \<open>Load\<close>, gives
  up at the first that fails, and otherwise produces the module's globals or an error from
  the loaded modules.
\<close>

datatype script = Script
  (loads: "string list")
  (body: "StringDict list \<Rightarrow> StringDict \<times> error option")

record loadEnv =
  packages :: "string \<rightharpoonup> string"
  pathJoin :: "string \<Rightarrow> string \<Rightarrow> string"
  ReadFile :: "string \<Rightarrow> error + bytes"
  parse :: "string \<Rightarrow> bytes \<Rightarrow> script"

definition resolveModule ::
  "loadEnv \<Rightarrow> string \<Rightarrow> string \<Rightarrow> string \<Rightarrow> error + (string \<times> string)" where
  "resolveModule E root pkg module =
     (case (if pkg \<noteq> '''' then packages E pkg else Some root) of
        None \<Rightarrow> Inl (packageNotFoundErr pkg)
      | Some root' \<Rightarrow>
          if Contains module ''..'' then Inl (moduleNotFoundErr pkg module)
          else
            (let path = pathJoin E root' module;
                 path = (if \<not> HasSuffix module ''.star'' then pathJoin E path ''default.star''
                         else path)
             in Inr (root', path)))"

text \<open>
  The load function that \<open>makeLoaderHelper\<close> returns for a root, on the shared cache.
  Executing a module calls the load function of the module's package root for each of its
  load statements; the fuel bounds the nesting of module executions, and \<open>None\<close> is
  the answer of a load that has not returned within it.
\<close>

fun load ::
    "nat \<Rightarrow> loadEnv \<Rightarrow> string \<Rightarrow> loadCache \<Rightarrow> string
       \<Rightarrow> (StringDict \<times> error option) option \<times> loadCache" and
  ExecFile ::
    "nat \<Rightarrow> loadEnv \<Rightarrow> string \<Rightarrow> string list \<Rightarrow> StringDict list \<Rightarrow> loadCache
       \<Rightarrow> (StringDict list + error) option \<times> loadCache"
where
  "load n E root cache addr =
     (case cache addr of
        Some (Some e) \<Rightarrow> (Some (entry_globals e, entry_err e), cache)
      | Some None \<Rightarrow> (Some (Map.empty, Some (Errorf ''Cycle in load graph'')), cache)
      | None \<Rightarrow>
          (let cache1 = cache(addr \<mapsto> None);
               (pkg, module) = parseModule addr
           in case resolveModule E root pkg module of
                Inl err \<Rightarrow> (Some (Map.empty, Some err), cache1)
              | Inr (pkgRoot, filePath) \<Rightarrow>
                  (case ReadFile E filePath of
                     Inl err \<Rightarrow>
                       (Some (Map.empty,
                          Some (Wrap (if IsNotExist err then Errorf ''Module not found in package''
                                      else err) ''Loading module'')), cache1)
                   | Inr data \<Rightarrow>
                       (case n of
                          0 \<Rightarrow> (None, cache1)
                        | Suc m \<Rightarrow>
                            (case ExecFile m E pkgRoot (loads (parse E addr data)) [] cache1 of
                               (None, cache2) \<Rightarrow> (None, cache2)
                             | (Some r, cache2) \<Rightarrow>
                                 (let e = (case r of
                                             Inl loaded \<Rightarrow>
                                               (case body (parse E addr data) loaded of
                                                  (g, er) \<Rightarrow> cacheEntry g er)
                                           | Inr er \<Rightarrow> cacheEntry Map.empty (Some er))
                                  in (Some (entry_globals e, entry_err e), cache2(addr \<mapsto> Some e))))))))"
| "ExecFile n E root [] loaded cache = (Some (Inl loaded), cache)"
| "ExecFile n E root (a # as) loaded cache =
     (case load n E root cache a of
        (None, cache') \<Rightarrow> (None, cache')
      | (Some (g, Some er), cache') \<Rightarrow> (Some (Inr (Wrap er ''cannot load'')), cache')
      | (Some (g, None), cache') \<Rightarrow> ExecFile n E root as (loaded @ [g]) cache')"


declare load.simps [simp del]

text \<open>
  A run of later loads on the shared cache, each with its own root: the cache they leave.
\<close>

fun loadAll :: "nat \<Rightarrow> loadEnv \<Rightarrow> (string \<times> string) list \<Rightarrow> loadCache \<Rightarrow> loadCache" where
  "loadAll n E [] cache = cache"
| "loadAll n E ((root, addr) # later) cache = loadAll n E later (snd (load n E root cache addr))"

text \<open>
  A workspace with one module \<open>other.star\<close> that loads \<open>lib.star\<close>, which does not
  exist.
\<close>

definition loaderEnv :: loadEnv where
  "loaderEnv = \<lparr>packages = Map.empty,
     pathJoin = (\<lambda>a b. a @ ''/'' @ b),
     ReadFile = (\<lambda>name. if name = ''/root/other.star'' then Inr ''load lib.star''
                          else Inl (NotExist name)),
     parse = (\<lambda>addr data. Script [''lib.star''] (\<lambda>loaded. (Map.empty, None)))\<rparr>"

section \<open>The builder\<close>

subsection \<open>File trees, the cache directory and the temporary area\<close>

text \<open>
  An artifact is a file tree. A file and a directory are identified by an inode; a
  directory lists its entries in the order of \<^verbatim>\<open>ReadDir\<close>; a symbolic link has a mode of
  its own and resolves to a tree, or dangles. The modes of all inodes are kept in one
  table, so that two paths to one inode (a link and its target, two hard links) see the
  same mode. The state keeps two stores: the entries below the cache root, by key, and
  the artifacts of the temporary areas (the build directories and the cache's own staging
  directory), by path; containing directories are not represented. It also records the
  run of every builder process and every commit into the cache, in order. A builder
  process writes below its temporary directory only.
\<close>

datatype node =
    File nat bytes
  | Dir nat "(string \<times> node) list"
  | Symlink FileMode "node option"

datatype event = Invoked string | Committed string

record bstate =
  cacheFiles :: "string \<rightharpoonup> node"
  tmpFiles :: "string \<rightharpoonup> node"
  inodeMode :: "nat \<Rightarrow> FileMode"
  events :: "event list"

record FileSystemCache =
  fsc_root :: string
  fsc_tmpDir :: string

text \<open>
  The environment of a build: \<^verbatim>\<open>ioutil.TempDir\<close> (the fresh directory it makes, or its
  error), the random name of \<open>randString\<close>, the builder process (from builder, arguments,
  environment and working directory, reading the cache, to the error of \<^verbatim>\<open>cmd.Run\<close>, the
  captured output, and the temporary area and the modes it leaves), the inode and the mode
  \<^verbatim>\<open>os.Create\<close> gives a new file, and the failures of the system calls other than a
  missing file: of \<^verbatim>\<open>os.Rename\<close> from a temporary path to a cache key (a rename across
  file systems, a missing parent directory), of \<^verbatim>\<open>os.Stat\<close> on a cache key (its message),
  of listing the directory with a given inode, and of changing the mode of a given inode
  (permission denied, say), the last two under the current modes.
\<close>

record buildEnv =
  TempDir :: "string \<Rightarrow> bstate \<Rightarrow> error + string"
  randString :: "bstate \<Rightarrow> string"
  cmdRun ::
    "string \<Rightarrow> string list \<Rightarrow> string list \<Rightarrow> string \<Rightarrow> (string \<rightharpoonup> node) \<Rightarrow> (string \<rightharpoonup> node)
       \<Rightarrow> (nat \<Rightarrow> FileMode)
       \<Rightarrow> error option \<times> string \<times> (string \<rightharpoonup> node) \<times> (nat \<Rightarrow> FileMode)"
  newInode :: "bstate \<Rightarrow> nat"
  createMode :: FileMode
  renameError :: "string \<Rightarrow> string \<Rightarrow> error option"
  statError :: "string \<Rightarrow> string option"
  readDirError :: "nat \<Rightarrow> (nat \<Rightarrow> FileMode) \<Rightarrow> error option"
  chmodError :: "nat \<Rightarrow> (nat \<Rightarrow> FileMode) \<Rightarrow> error option"

text \<open>
  \<^verbatim>\<open>filepath.Join\<close> of a directory and a name, both clean; the paths below a directory;
  and \<^verbatim>\<open>os.RemoveAll\<close> of a temporary path, which removes what lies below it.
\<close>

definition joinPath :: "string \<Rightarrow> string \<Rightarrow> string" where
  "joinPath a b = a @ ''/'' @ b"

definition below :: "string \<Rightarrow> string \<Rightarrow> bool" where
  "below dir p = (p = dir \<or> take (Suc (length dir)) p = dir @ ''/'')"

definition RemoveAll :: "string \<Rightarrow> bstate \<Rightarrow> bstate" where
  "RemoveAll path s = s\<lparr>tmpFiles := (\<lambda>p. if below path p then None else tmpFiles s p)\<rparr>"

text \<open>
  Following symbolic links, as \<^verbatim>\<open>os.Stat\<close>, \<^verbatim>\<open>os.Open\<close> and \<^verbatim>\<open>os.Chmod\<close> do: the file or
  directory a tree stands for, and its inode; \<open>None\<close> for a link that dangles. \<open>Lstat\<close>
  is the mode that \<^verbatim>\<open>ReadDir\<close> reports for an entry: the link's own mode for a link.
\<close>

fun follow :: "node \<Rightarrow> node option" where
  "follow (File i bs) = Some (File i bs)"
| "follow (Dir i files) = Some (Dir i files)"
| "follow (Symlink lm None) = None"
| "follow (Symlink lm (Some t)) = follow t"

fun target :: "node \<Rightarrow> nat option" where
  "target (File i bs) = Some i"
| "target (Dir i files) = Some i"
| "target (Symlink lm None) = None"
| "target (Symlink lm (Some t)) = target t"

fun Lstat :: "node \<Rightarrow> (nat \<Rightarrow> FileMode) \<Rightarrow> FileMode" where
  "Lstat (File i bs) M = M i"
| "Lstat (Dir i files) M = M i"
| "Lstat (Symlink lm t) M = lm"

subsection \<open>The file system cache\<close>



text \<open>
  \<^verbatim>\<open>os.Rename\<close> of a temporary path to a key of the cache. A file or link replaces a file
  or link and a directory replaces an empty directory; other clashes fail.
\<close>

fun replaces :: "node \<Rightarrow> node \<Rightarrow> error option" where
  "replaces (Dir i es) (Dir i' []) = None"
| "replaces (Dir i es) (Dir i' (e # es')) = Some (Exist ''directory not empty'')"
| "replaces (Dir i es) old = Some (OSError ''not a directory'')"
| "replaces nd (Dir i' es') = Some (OSError ''is a directory'')"
| "replaces nd old = None"

definition Rename :: "buildEnv \<Rightarrow> string \<Rightarrow> string \<Rightarrow> bstate \<Rightarrow> error + bstate" where
  "Rename E src dst s =
     (case tmpFiles s src of
        None \<Rightarrow> Inl (NotExist src)
      | Some nd \<Rightarrow>
          (case renameError E src dst of
             Some er \<Rightarrow> Inl er
           | None \<Rightarrow>
               (case (case cacheFiles s dst of None \<Rightarrow> None | Some old \<Rightarrow> replaces nd old) of
                  Some er \<Rightarrow> Inl er
                | None \<Rightarrow>
                    Inr (s\<lparr>cacheFiles := (cacheFiles s)(dst \<mapsto> nd),
                           tmpFiles := (tmpFiles s)(src := None),
                           events := events s @ [Committed dst]\<rparr>))))"

definition withTmpArtifact ::
  "buildEnv \<Rightarrow> FileSystemCache \<Rightarrow> (string \<Rightarrow> bstate \<Rightarrow> error option \<times> bstate) \<Rightarrow> string
     \<Rightarrow> bstate \<Rightarrow> error option \<times> bstate" where
  "withTmpArtifact E fsc artifactCallback name s =
     (let tmpPath = joinPath (fsc_tmpDir fsc) (randString E s)
      in case artifactCallback tmpPath s of
           (Some er, s1) \<Rightarrow> (Some er, RemoveAll tmpPath s1)
         | (None, s1) \<Rightarrow>
             (case Rename E tmpPath name s1 of
                Inr s2 \<Rightarrow> (None, s2)
              | Inl er \<Rightarrow>
                  if IsExist er then
                    (let s2 = s1\<lparr>cacheFiles := (cacheFiles s1)(name := None)\<rparr>
                     in case Rename E tmpPath name s2 of
                          Inl er2 \<Rightarrow> (Some er2, s2)
                        | Inr s3 \<Rightarrow> (None, s3))
                  else (Some er, s1)))"

definition FileSystemCache_NewFileEntry ::
  "buildEnv \<Rightarrow> FileSystemCache \<Rightarrow> (string \<Rightarrow> bstate \<Rightarrow> error option \<times> bstate) \<Rightarrow> string
     \<Rightarrow> bstate \<Rightarrow> error option \<times> bstate" where
  "FileSystemCache_NewFileEntry E fsc cacheFileCallback name s =
     withTmpArtifact E fsc
       (\<lambda>tmpPath s0.
          cacheFileCallback tmpPath
            (s0\<lparr>tmpFiles := (tmpFiles s0)(tmpPath \<mapsto> File (newInode E s0) []),
                 inodeMode := (inodeMode s0)(newInode E s0 := createMode E)\<rparr>))
       name s"

text \<open>
  The fallback of \<open>MoveFile\<close>: the callback opens the source, copies its bytes to the new
  file and removes the source. Reading a directory as a file fails.
\<close>

definition copyFile :: "string \<Rightarrow> string \<Rightarrow> bstate \<Rightarrow> error option \<times> bstate" where
  "copyFile src w s =
     (case (case tmpFiles s src of None \<Rightarrow> None | Some nd \<Rightarrow> follow nd) of
        Some (File i bs) \<Rightarrow>
          (case tmpFiles s w of
             Some (File wi wbs) \<Rightarrow>
               (None, RemoveAll src (s\<lparr>tmpFiles := (tmpFiles s)(w \<mapsto> File wi (wbs @ bs))\<rparr>))
           | _ \<Rightarrow> (Some (Wrap (OSError ''bad file descriptor'') ''Copying source file''), s))
      | Some nd \<Rightarrow> (Some (Wrap (OSError ''is a directory'') ''Copying source file''), s)
      | None \<Rightarrow> (Some (Wrap (NotExist src) ''Opening source file''), s))"

definition MoveFile ::
  "buildEnv \<Rightarrow> FileSystemCache \<Rightarrow> string \<Rightarrow> string \<Rightarrow> bstate \<Rightarrow> error option \<times> bstate" where
  "MoveFile E fsc src dst s =
     (case Rename E src dst s of
        Inr s1 \<Rightarrow> (None, s1)
      | Inl er \<Rightarrow>
          (case FileSystemCache_NewFileEntry E fsc (copyFile src) dst s of
             (None, s1) \<Rightarrow> (None, s1)
           | (Some er2, s1) \<Rightarrow>
               (Some (Wrap er2 ''Handling error: Copying file to cache path''), s1)))"

subsection \<open>The immutability pass\<close>

text \<open>
  \<^verbatim>\<open>os.Chmod\<close> follows symbolic links, and fails on a link that dangles. It sets the nine
  permission bits and the setuid, setgid and sticky bits of the inode from the mode it is
  given (bits 23, 22 and 20 of a Go \<^verbatim>\<open>FileMode\<close>); the type bits of the inode are not its
  to change. \<open>setMode\<close> is the mode that \<^verbatim>\<open>Stat\<close> reports afterwards.
\<close>

definition chmodBits :: FileMode where
  "chmodBits = 0x1FF OR 0x800000 OR 0x400000 OR 0x100000"

definition setMode :: "FileMode \<Rightarrow> FileMode \<Rightarrow> FileMode" where
  "setMode old m = (old AND NOT chmodBits) OR (m AND chmodBits)"

definition Chmod ::
  "buildEnv \<Rightarrow> node \<Rightarrow> FileMode \<Rightarrow> (nat \<Rightarrow> FileMode) \<Rightarrow> error option \<times> (nat \<Rightarrow> FileMode)" where
  "Chmod E nd m M =
     (case target nd of
        None \<Rightarrow> (Some (NotExist ''chmod''), M)
      | Some i \<Rightarrow>
          (case chmodError E i M of
             Some er \<Rightarrow> (Some er, M)
           | None \<Rightarrow> (None, M(i := setMode (M i) m))))"

definition immutableMask :: FileMode where
  "immutableMask = NOT 0x1FF OR 0x16D"

text \<open>
  \<open>makeImmutableHelper\<close> on the tree at a path, given the mode \<open>fi\<close> that was read for
  the path before. Whether \<open>fi\<close> is a directory is read off the tree: a link among the
  entries of a directory is not one, whatever it resolves to. For a directory the helper
  lists the entries with \<^verbatim>\<open>ReadDir\<close>, which reports the mode every entry has at that moment
  (the table \<open>M0\<close> of \<open>makeImmutableFiles\<close>), descends into the entries in order and
  stops at the first error; then it changes the mode of the path itself to
  \<open>fi AND immutableMask\<close>. The mode changes made before an error remain.
\<close>

fun makeImmutableHelper ::
    "buildEnv \<Rightarrow> node \<Rightarrow> FileMode \<Rightarrow> (nat \<Rightarrow> FileMode) \<Rightarrow> error option \<times> (nat \<Rightarrow> FileMode)" and
  makeImmutableFiles ::
    "buildEnv \<Rightarrow> (string \<times> node) list \<Rightarrow> (nat \<Rightarrow> FileMode) \<Rightarrow> (nat \<Rightarrow> FileMode)
       \<Rightarrow> error option \<times> (nat \<Rightarrow> FileMode)"
where
  "makeImmutableHelper E (Dir i files) fi M =
     (case readDirError E i M of
        Some er \<Rightarrow> (Some er, M)
      | None \<Rightarrow>
          (case makeImmutableFiles E files M M of
             (Some er, M1) \<Rightarrow> (Some er, M1)
           | (None, M1) \<Rightarrow> Chmod E (Dir i files) (fi AND immutableMask) M1))"
| "makeImmutableHelper E (File i bs) fi M = Chmod E (File i bs) (fi AND immutableMask) M"
| "makeImmutableHelper E (Symlink lm t) fi M = Chmod E (Symlink lm t) (fi AND immutableMask) M"
| "makeImmutableFiles E [] M0 M = (None, M)"
| "makeImmutableFiles E ((name, file) # files) M0 M =
     (case makeImmutableHelper E file (Lstat file M0) M of
        (Some er, M1) \<Rightarrow> (Some er, M1)
      | (None, M1) \<Rightarrow> makeImmutableFiles E files M0 M1)"

text \<open>
  \<open>makeImmutable\<close>: \<^verbatim>\<open>os.Stat\<close> follows links, so the helper starts at what the path
  resolves to, with the mode of that file or directory.
\<close>

definition makeImmutable :: "buildEnv \<Rightarrow> string \<Rightarrow> bstate \<Rightarrow> error option \<times> bstate" where
  "makeImmutable E path s =
     (case (case tmpFiles s path of None \<Rightarrow> None | Some nd \<Rightarrow> follow nd) of
        None \<Rightarrow> (Some (NotExist path), s)
      | Some t \<Rightarrow>
          (case makeImmutableHelper E t (Lstat t (inodeMode s)) (inodeMode s) of
             (res, M) \<Rightarrow> (res, s\<lparr>inodeMode := M\<rparr>)))"

subsection \<open>Build and BuildRecursive\<close>

text \<open>\<^verbatim>\<open>copy(dst, src)\<close> overwrites a prefix of \<open>dst\<close> with as much of \<open>src\<close> as fits.\<close>

definition copy :: "'a list \<Rightarrow> 'a list \<Rightarrow> 'a list" where
  "copy dst src = take (length dst) src @ drop (length src) dst"

definition Build ::
  "buildEnv \<Rightarrow> FileSystemCache \<Rightarrow> Derivation \<Rightarrow> string \<Rightarrow> bstate \<Rightarrow> error option \<times> bstate" where
  "Build E fsc d tmpDirBase s =
     (case TempDir E tmpDirBase s of
        Inl er \<Rightarrow> (Some (Wrap er ''Creating temporary build directory''), s)
      | Inr tmpDir \<Rightarrow>
          (let tmpOutPath = joinPath tmpDir (randString E s);
               envCopy = replicate (length (DEnv d) + 2) [];
               envCopy = copy (take (length envCopy - 1) envCopy) (DEnv d)
                           @ drop (length envCopy - 1) envCopy;
               envCopy = envCopy[length envCopy - 1 := ''out='' @ tmpOutPath];
               envCopy = envCopy[length envCopy - 2 := ''cachePath='' @ fsc_root fsc]
           in case cmdRun E (DBuilder d) (DArgs d) envCopy tmpDir (cacheFiles s) (tmpFiles s)
                     (inodeMode s) of
                (runErr, output, tmp1, modes1) \<Rightarrow>
                  (case
                     (let s1 = s\<lparr>tmpFiles := tmp1, inodeMode := modes1,
                                  events := events s @ [Invoked (ID d)]\<rparr>
                      in case runErr of
                           Some er \<Rightarrow> (Some (Wrap er (''OUTPUT: '' @ output)), s1)
                         | None \<Rightarrow>
                             (case makeImmutable E tmpOutPath s1 of
                                (Some er, s2) \<Rightarrow>
                                  (Some (Wrap er ''Chmodding output artifact''), s2)
                              | (None, s2) \<Rightarrow>
                                  (case MoveFile E fsc tmpOutPath (ID d) s2 of
                                     (Some er, s3) \<Rightarrow>
                                       if IsNotExist er
                                       then (Some (Errorf
                                          ''Builder succeeded but didn't create output file''), s3)
                                       else (Some (Wrap er ''Moving output file into cache''), s3)
                                   | (None, s3) \<Rightarrow> (None, s3)))) of
                     (res, s4) \<Rightarrow> (res, RemoveAll tmpDir s4))))"


subsection \<open>The inodes of a file tree\<close>

text \<open>
  The inodes of the files and directories that a tree holds (those reached through
  directory entries, links not followed), and the inodes that the symbolic links of the
  tree resolve to. They state what the immutability pass does to a tree.
\<close>

fun inodes :: "node \<Rightarrow> nat set" and
    inodesOfFiles :: "(string \<times> node) list \<Rightarrow> nat set" where
  "inodes (File i bs) = {i}"
| "inodes (Dir i files) = insert i (inodesOfFiles files)"
| "inodes (Symlink lm t) = {}"
| "inodesOfFiles [] = {}"
| "inodesOfFiles ((name, file) # files) = inodes file \<union> inodesOfFiles files"

fun linkTargets :: "node \<Rightarrow> nat set" and
    linkTargetsOfFiles :: "(string \<times> node) list \<Rightarrow> nat set" where
  "linkTargets (File i bs) = {}"
| "linkTargets (Dir i files) = linkTargetsOfFiles files"
| "linkTargets (Symlink lm t) = set_option (target (Symlink lm t))"
| "linkTargetsOfFiles [] = {}"
| "linkTargetsOfFiles ((name, file) # files) = linkTargets file \<union> linkTargetsOfFiles files"

text \<open>
  Two relations between mode tables during a pass that started at the table \<open>M0\<close>, for
  a set \<open>L\<close> of link targets. \<open>inPass\<close>: every inode outside \<open>L\<close> still has its first
  mode or already the masked one. \<open>passStep\<close>: from \<open>M\<close> to \<open>M'\<close> no bit outside the
  ones \<^verbatim>\<open>chmod\<close> sets has changed, and an inode whose mode has changed has no write bit
  left and, outside \<open>L\<close>, has its first mode masked.
\<close>

definition inPass :: "nat set \<Rightarrow> (nat \<Rightarrow> FileMode) \<Rightarrow> (nat \<Rightarrow> FileMode) \<Rightarrow> bool" where
  "inPass L M0 M = (\<forall>i. i \<notin> L \<longrightarrow> M i = M0 i \<or> M i = M0 i AND immutableMask)"

definition passStep ::
  "nat set \<Rightarrow> (nat \<Rightarrow> FileMode) \<Rightarrow> (nat \<Rightarrow> FileMode) \<Rightarrow> (nat \<Rightarrow> FileMode) \<Rightarrow> bool" where
  "passStep L M0 M M' =
     (\<forall>i. M' i AND NOT chmodBits = M i AND NOT chmodBits
        \<and> (M' i = M i
           \<or> (M' i AND 0x92 = 0 \<and> (i \<notin> L \<longrightarrow> M' i = M0 i AND immutableMask))))"

subsection \<open>A concrete build environment\<close>

text \<open>
  Three builders: \<open>/bin/true\<close> exits with status 0 and writes nothing, \<open>/bin/false\<close>
  exits with status 1, and every other builder writes the file \<open>hello\<close>, with mode 0644,
  to the path that the last environment entry \<open>out=...\<close> names. No system call fails for
  another reason than a missing file.
\<close>

definition shellEnv :: buildEnv where
  "shellEnv = \<lparr>
     TempDir = (\<lambda>base s. Inr (base @ ''/'' @ replicate (Suc (length (events s))) (CHR ''7''))),
     randString = (\<lambda>s. ''00000000075bcd15''),
     cmdRun = (\<lambda>b as env dir cache tmp modes.
        if b = ''/bin/true'' then (None, [], tmp, modes)
        else if b = ''/bin/false'' then (Some (OSError ''exit status 1''), [], tmp, modes)
        else (None, [], tmp(drop 4 (last env) \<mapsto> File (length dir) ''hello''),
              modes(length dir := 0x1A4))),
     newInode = (\<lambda>s. 0),
     createMode = 0x1A4,
     renameError = (\<lambda>src dst. None),
     statError = (\<lambda>key. None),
     readDirError = (\<lambda>i M. None),
     chmodError = (\<lambda>i M. None)\<rparr>"

definition homeCache :: FileSystemCache where
  "homeCache = \<lparr>fsc_root = ''/cache'', fsc_tmpDir = ''/cache-tmp''\<rparr>"

definition emptyDisk :: bstate where
  "emptyDisk = \<lparr>cacheFiles = Map.empty, tmpFiles = Map.empty, inodeMode = (\<lambda>i. 0),
     events = []\<rparr>"

text \<open>
  An output directory with the files \<open>a\<close> (inode 11, mode 0600) and \<open>b\<close> (inode 12,
  mode 0644) and the symbolic link \<open>z-link\<close> to \<open>a\<close>; the directory has inode 10 and
  mode 0755.
\<close>

definition linkedTree :: node where
  "linkedTree =
     Dir 10 [(''a'', File 11 ''x''), (''b'', File 12 ''y''),
             (''z-link'', Symlink 0x80001FF (Some (File 11 ''x'')))]"

definition linkedModes :: "nat \<Rightarrow> FileMode" where
  "linkedModes = (\<lambda>i. 0)(10 := 0x800001ED, 11 := 0x180, 12 := 0x1A4)"

subsection \<open>Derivation trees and build traces\<close>








section \<open>Verified properties\<close>

subsection \<open>The loop of \<open>freezeTarget\<close>\<close>

lemma hex_h: "EncodeToString ''h'' = ''68''"
  by (simp add: EncodeToString_def hexDigit_def)

lemma freezeEach_length:
  "freezeEach f args c = Inr (avs, c') \<Longrightarrow> length avs = length args"
  by (induction args arbitrary: c avs) (auto split: sum.splits)

lemma foldl_Write: "foldl Write h bss = h @ concat bss"
  by (induction bss arbitrary: h) (simp_all add: Write_def)

lemma freezeArgs_closed:
  "i + length args \<le> length frozenArgs \<Longrightarrow>
   freezeArgs f args (i, deps, h, frozenArgs) c =
     (case freezeEach f args c of
        Inl err \<Rightarrow> Inl (Wrap err ''Freezing argument'')
      | Inr (avs, c') \<Rightarrow>
          Inr ((deps @ concat (map Derivations avs), h @ concat (map Hash avs),
                take i frozenArgs @ map Value avs @ drop (i + length args) frozenArgs), c'))"
proof (induction args arbitrary: i deps h frozenArgs c)
  case Nil
  then show ?case by simp
next
  case (Cons arg args)
  show ?case
  proof (cases "freezeArg f arg c")
    case (Inl err)
    then show ?thesis by simp
  next
    case (Inr r)
    obtain av c1 where r: "r = (av, c1)" by (cases r)
    have len: "Suc i + length args \<le> length (frozenArgs[i := Value av])"
      using Cons.prems by simp
    have i: "i < length frozenArgs" using Cons.prems by simp
    have tk: "take (Suc i) (frozenArgs[i := Value av]) = take i frozenArgs @ [Value av]"
      using i by (simp add: take_Suc_conv_app_nth)
    show ?thesis
      using Inr r Cons.IH [OF len] tk
      by (simp add: Write_def split: sum.splits)
  qed
qed

lemma freezeTarget_closed:
  "freezeTarget f (Target name builder args env) c =
     (case freezeEach f args c of
        Inl err \<Rightarrow> Inl (Wrap err ''Freezing argument'')
      | Inr (avs, c') \<Rightarrow>
          (let hash = newHasher f (name @ builder @ concat env @ concat (map Hash avs))
           in Inr ((Derivation (EncodeToString hash @ ''-'' @ name) []
                      (concat (map Derivations avs)) builder (map Value avs) env, hash),
                   c')))"
  by (simp add: freezeArgs_closed foldl_Write Write_def Let_def split: sum.splits)


subsection \<open>The loop of \<open>Sub.freezeArg\<close>\<close>

lemma freezeSubs_closed:
  "freezeSubs f subs (message, derivations, h) c =
     (case freezeEach f (map snd subs) c of
        Inl err \<Rightarrow> Inl (Wrap err ''Freezing substitution'')
      | Inr (avs, c') \<Rightarrow>
          Inr ((foldl (\<lambda>m (key, av). ReplaceAll m (''${'' @ key @ ''}'') (Value av))
                  message (zip (map fst subs) avs),
                derivations @ concat (map Derivations avs),
                h @ concat (map (\<lambda>(key, av). key @ Hash av) (zip (map fst subs) avs))),
               c'))"
proof (induction subs arbitrary: message derivations h c)
  case Nil
  then show ?case by simp
next
  case (Cons s subs)
  obtain key v where s: "s = (key, v)" by (cases s)
  show ?case
  proof (cases "freezeArg f v c")
    case (Inl err)
    then show ?thesis using s by simp
  next
    case (Inr r)
    obtain av c1 where r: "r = (av, c1)" by (cases r)
    show ?thesis
      using Inr r s Cons.IH
      by (simp add: Write_def split: sum.splits)
  qed
qed

lemma ReplaceAll_no_occurrence:
  "\<not> Contains s old \<Longrightarrow> ReplaceAll s old new = s"
proof (induction s)
  case Nil
  then show ?case by simp
next
  case (Cons c cs)
  then have "old \<noteq> []" by auto
  then show ?case using Cons by simp
qed

lemma ReplaceAll_first_occurrence:
  "\<not> Contains (before @ butlast old) old \<Longrightarrow>
   ReplaceAll (before @ old @ rest) old new = before @ new @ ReplaceAll rest old new"
proof (induction before)
  case Nil
  have ne: "old \<noteq> []"
  proof
    assume "old = []"
    then have "Contains ([] @ butlast old) old" by simp
    then show False using Nil by simp
  qed
  then obtain p ps where old: "old = p # ps" by (cases old) auto
  have "ReplaceAll (p # (ps @ rest)) (p # ps) new = new @ ReplaceAll rest (p # ps) new"
    by simp
  then show ?case using old by simp
next
  case (Cons x before)
  have ne: "old \<noteq> []"
  proof
    assume "old = []"
    then have "Contains ((x # before) @ butlast old) old" by simp
    then show False using Cons.prems by simp
  qed
  have here: "take (length old) (x # before @ butlast old) \<noteq> old"
    and later: "\<not> Contains (before @ butlast old) old"
    using Cons.prems by simp_all
  have split: "old @ rest = butlast old @ (last old # rest)"
    using ne by simp
  have len: "length old \<le> length (x # before @ butlast old)"
    by simp
  have "take (length old) (x # before @ old @ rest) =
        take (length old) ((x # before @ butlast old) @ (last old # rest))"
    by (simp add: split)
  also have "\<dots> = take (length old) (x # before @ butlast old)"
    using len by (simp del: append.simps length_Cons length_append add: take_append)
  finally have no: "take (length old) (x # before @ old @ rest) \<noteq> old"
    using here by simp
  have "ReplaceAll (x # before @ old @ rest) old new =
        x # ReplaceAll (before @ old @ rest) old new"
    using ne no by simp
  then show ?case using Cons.IH [OF later] by simp
qed

text \<open>
  C7. Freezing \<open>Sub format substitutions\<close> freezes the substitutions' values in list
  order. Its value is the format after replacing, substitution by substitution in list
  order, every occurrence of \<open>${key}\<close> in the running message by that substitution's
  frozen value (a left fold: a later substitution works on the output of the earlier
  ones). Its derivations are the children's derivations concatenated in order. Its hash
  is the digest of a fresh hasher fed the format and then, per substitution, the key
  followed by the child's hash. The replacement of one substitution is pinned down by two
  facts: a message without an occurrence of \<open>${key}\<close> is left as it is, and a message is
  rewritten at the first occurrence of \<open>${key}\<close> (the text before it is kept, the
  occurrence becomes the value) and the rest of the message is treated the same way.
\<close>

theorem Sub_freezeArg_closed:
  "freezeArg f (Sub format substitutions) c =
     (case freezeEach f (map snd substitutions) c of
        Inl err \<Rightarrow> Inl (Wrap err ''Freezing substitution'')
      | Inr (avs, c') \<Rightarrow>
          Inr (\<lparr>Value =
                  foldl (\<lambda>m (key, av). ReplaceAll m (''${'' @ key @ ''}'') (Value av))
                    format (zip (map fst substitutions) avs),
                Hash =
                  newHasher f
                    (format @
                     concat (map (\<lambda>(key, av). key @ Hash av)
                       (zip (map fst substitutions) avs))),
                Derivations = concat (map Derivations avs)\<rparr>,
               c'))
   \<and> (\<not> Contains message (''${'' @ k @ ''}'') \<longrightarrow>
        ReplaceAll message (''${'' @ k @ ''}'') v = message)
   \<and> (\<not> Contains (before @ butlast (''${'' @ k @ ''}'')) (''${'' @ k @ ''}'') \<longrightarrow>
        ReplaceAll (before @ (''${'' @ k @ ''}'') @ rest) (''${'' @ k @ ''}'') v =
          before @ v @ ReplaceAll rest (''${'' @ k @ ''}'') v)"
proof -
  have "freezeArg f (Sub format substitutions) c =
     (case freezeEach f (map snd substitutions) c of
        Inl err \<Rightarrow> Inl (Wrap err ''Freezing substitution'')
      | Inr (avs, c') \<Rightarrow>
          Inr (\<lparr>Value =
                  foldl (\<lambda>m (key, av). ReplaceAll m (''${'' @ key @ ''}'') (Value av))
                    format (zip (map fst substitutions) avs),
                Hash =
                  newHasher f
                    (format @
                     concat (map (\<lambda>(key, av). key @ Hash av)
                       (zip (map fst substitutions) avs))),
                Derivations = concat (map Derivations avs)\<rparr>,
               c'))"
    by (simp add: freezeSubs_closed Write_def Let_def split: sum.splits)
  then show ?thesis
    using ReplaceAll_no_occurrence [of message "''${'' @ k @ ''}''" v]
      ReplaceAll_first_occurrence [of before "''${'' @ k @ ''}''" rest v]
    by blast
qed

theorem Sub_freezeArg_closed_witness:
  "\<not> Contains ''68-n'' ''${Dep}''
   \<and> ReplaceAll ''68-n'' ''${Dep}'' ''x'' = ''68-n''
   \<and> \<not> Contains (''Dependency '' @ butlast ''${Dep}'') ''${Dep}''
   \<and> ReplaceAll ''Dependency ${Dep}'' ''${Dep}'' ''68-n'' = ''Dependency 68-n''
   \<and> map_sum id fst
        (freezeArg mockFreezer
           (Sub ''Dependency ${Dep}'' [(''Dep'', TargetArg (Target ''n'' ''/bin/bash'' [] []))])
           Map.empty) =
       Inr \<lparr>Value = ''Dependency 68-n'', Hash = ''h'',
             Derivations = [Derivation ''68-n'' [] [] ''/bin/bash'' [] []]\<rparr>"
proof -
  note inst1 = Sub_freezeArg_closed
    [of mockFreezer "''Dependency ${Dep}''"
        "[(''Dep'', TargetArg (Target ''n'' ''/bin/bash'' [] []))]" Map.empty
        "''68-n''" "''Dep''" "''x''" "''Dependency ''" "[]"]
  have n1: "\<not> Contains ''68-n'' ''${Dep}''" by simp
  have n2: "\<not> Contains (''Dependency '' @ butlast ''${Dep}'') ''${Dep}''" by simp
  have r1: "ReplaceAll ''68-n'' ''${Dep}'' ''x'' = ''68-n''"
    using inst1 n1 by simp
  note inst2 = Sub_freezeArg_closed
    [of mockFreezer "''Dependency ${Dep}''"
        "[(''Dep'', TargetArg (Target ''n'' ''/bin/bash'' [] []))]" Map.empty
        "''68-n''" "''Dep''" "''68-n''" "''Dependency ''" "[]"]
  have r2: "ReplaceAll (''Dependency '' @ ''${Dep}'' @ []) ''${Dep}'' ''68-n'' =
      ''Dependency '' @ ''68-n'' @ ReplaceAll [] ''${Dep}'' ''68-n''"
    using inst2 n2 by (simp del: ReplaceAll.simps)
  have r2': "ReplaceAll ''Dependency ${Dep}'' ''${Dep}'' ''68-n'' = ''Dependency 68-n''"
    using r2 by simp
  have each: "freezeEach mockFreezer [TargetArg (Target ''n'' ''/bin/bash'' [] [])] Map.empty =
      Inr ([\<lparr>Value = ''68-n'', Hash = ''h'',
               Derivations = [Derivation ''68-n'' [] [] ''/bin/bash'' [] []]\<rparr>], Map.empty)"
    by (simp add: mockFreezer_def hex_h Write_def Let_def)
  have v: "map_sum id fst
        (freezeArg mockFreezer
           (Sub ''Dependency ${Dep}'' [(''Dep'', TargetArg (Target ''n'' ''/bin/bash'' [] []))])
           Map.empty) =
       Inr \<lparr>Value = ''Dependency 68-n'', Hash = ''h'',
             Derivations = [Derivation ''68-n'' [] [] ''/bin/bash'' [] []]\<rparr>"
    using inst2 each r2' by (simp add: mockFreezer_def del: freezeArg.simps ReplaceAll.simps)
  show ?thesis using n1 n2 r1 r2' v by blast
qed

subsection \<open>The \<open>Hash\<close> field of a frozen derivation\<close>

lemma FreezeTarget_DHash:
  "FreezeTarget f t c = Inr (d, c') \<Longrightarrow> DHash d = []"
  by (cases t) (auto simp: FreezeTarget_def Let_def split: sum.splits)

text \<open>
  C6. The claim: the derivation returned by \<open>FreezeTarget\<close> carries the raw digest in
  its \<open>Hash\<close> field. The code builds the derivation without that field: for the target
  of the first seed scenario and the mock hasher with digest \<open>h\<close>, the identifier is
  \<open>68-t\<close> (the hex of \<open>h\<close>), \<open>freezeTarget\<close> returns the digest \<open>h\<close> beside the
  derivation, and the derivation's \<open>Hash\<close> field is empty.
\<close>

theorem FreezeTarget_Hash_unset:
  "FreezeTarget mockFreezer trivialTarget Map.empty =
     Inr (Derivation ''68-t'' [] [] ''/bin/bash'' [''-c'', ''echo hi > $out''] [], Map.empty)
   \<and> map_sum id (snd \<circ> fst) (freezeTarget mockFreezer trivialTarget Map.empty) = Inr ''h''
   \<and> map_sum id (DHash \<circ> fst) (FreezeTarget mockFreezer trivialTarget Map.empty) = Inr []"
  by (simp add: FreezeTarget_def trivialTarget_def mockFreezer_def hex_h Write_def Let_def)

subsection \<open>Reordering the environment or the arguments\<close>

text \<open>
  C5, as claimed, fails: the entries are written to the hasher one after the other with
  nothing between them, so a reordering that leaves the concatenation unchanged leaves the
  hash unchanged, for every hasher. With the collision-free hasher whose digest is the
  absorbed stream, the environments \<open>[a, aa]\<close> and \<open>[aa, a]\<close> give the same hash, and
  so do the argument lists \<open>[String a, String aa]\<close> and \<open>[String aa, String a]\<close>.
\<close>

theorem reorder_same_stream_same_hash:
  "inj (newHasher plainFreezer)
   \<and> mset [''aa'', ''a''] = mset [''a'', ''aa''] \<and> [''aa'', ''a''] \<noteq> [''a'', ''aa'']
   \<and> map_sum id (snd \<circ> fst)
        (freezeTarget plainFreezer (Target ''t'' ''b'' [] [''a'', ''aa'']) Map.empty) =
      map_sum id (snd \<circ> fst)
        (freezeTarget plainFreezer (Target ''t'' ''b'' [] [''aa'', ''a'']) Map.empty)
   \<and> mset [String ''aa'', String ''a''] = mset [String ''a'', String ''aa'']
   \<and> [String ''aa'', String ''a''] \<noteq> [String ''a'', String ''aa'']
   \<and> map_sum id (snd \<circ> fst)
        (freezeTarget plainFreezer (Target ''t'' ''b'' [String ''a'', String ''aa''] [])
           Map.empty) =
      map_sum id (snd \<circ> fst)
        (freezeTarget plainFreezer (Target ''t'' ''b'' [String ''aa'', String ''a''] [])
           Map.empty)"
  by (simp add: plainFreezer_def Write_def Let_def inj_def)

text \<open>
  C5, amended. Under a collision-free (injective) hasher, two targets with the same name
  and builder whose arguments freeze have the same hash exactly when the stream fed to the
  hasher after name and builder is the same: the concatenation of the environment entries
  followed by the concatenation of the frozen arguments' hashes. So a reordering of
  \<open>args\<close> or \<open>env\<close> changes the hash whenever it changes that stream.
\<close>

theorem reorder_hash_iff_stream:
  assumes "inj (newHasher f)"
    and "freezeEach f args c = Inr (avs, c1)"
    and "freezeEach f args' c = Inr (avs', c1')"
  shows "\<exists>d d'. freezeTarget f (Target name builder args env) c =
             Inr ((d, newHasher f (name @ builder @ concat env @ concat (map Hash avs))), c1)
         \<and> freezeTarget f (Target name builder args' env') c =
             Inr ((d', newHasher f (name @ builder @ concat env' @ concat (map Hash avs'))), c1')
         \<and> (newHasher f (name @ builder @ concat env @ concat (map Hash avs)) =
              newHasher f (name @ builder @ concat env' @ concat (map Hash avs'))
            \<longleftrightarrow> concat env @ concat (map Hash avs) = concat env' @ concat (map Hash avs'))"
  using assms
  by (simp add: freezeTarget_closed Let_def inj_eq del: freezeTarget.simps)

theorem reorder_hash_iff_stream_witness:
  "inj (newHasher plainFreezer)
   \<and> freezeEach plainFreezer [String ''x'', String ''y''] Map.empty =
       Inr ([\<lparr>Value = ''x'', Hash = ''x'', Derivations = []\<rparr>,
             \<lparr>Value = ''y'', Hash = ''y'', Derivations = []\<rparr>], Map.empty)
   \<and> freezeEach plainFreezer [String ''y'', String ''x''] Map.empty =
       Inr ([\<lparr>Value = ''y'', Hash = ''y'', Derivations = []\<rparr>,
             \<lparr>Value = ''x'', Hash = ''x'', Derivations = []\<rparr>], Map.empty)
   \<and> map_sum id (snd \<circ> fst)
        (freezeTarget plainFreezer
           (Target ''t'' ''b'' [String ''x'', String ''y''] [''A=1'', ''B=2'']) Map.empty)
       = Inr ''tbA=1B=2xy''
   \<and> map_sum id (snd \<circ> fst)
        (freezeTarget plainFreezer
           (Target ''t'' ''b'' [String ''y'', String ''x''] [''B=2'', ''A=1'']) Map.empty)
       = Inr ''tbB=2A=1yx''
   \<and> ''tbA=1B=2xy'' \<noteq> ''tbB=2A=1yx''"
proof -
  have i: "inj (newHasher plainFreezer)"
    by (simp add: plainFreezer_def inj_def)
  have a: "freezeEach plainFreezer [String ''x'', String ''y''] Map.empty =
       Inr ([\<lparr>Value = ''x'', Hash = ''x'', Derivations = []\<rparr>,
             \<lparr>Value = ''y'', Hash = ''y'', Derivations = []\<rparr>], Map.empty)"
    by (simp add: plainFreezer_def Write_def)
  have b: "freezeEach plainFreezer [String ''y'', String ''x''] Map.empty =
       Inr ([\<lparr>Value = ''y'', Hash = ''y'', Derivations = []\<rparr>,
             \<lparr>Value = ''x'', Hash = ''x'', Derivations = []\<rparr>], Map.empty)"
    by (simp add: plainFreezer_def Write_def)
  from reorder_hash_iff_stream [OF i a b, of "''t''" "''b''" "[''A=1'', ''B=2'']" "[''B=2'', ''A=1'']"]
  obtain d d' where
    "freezeTarget plainFreezer (Target ''t'' ''b'' [String ''x'', String ''y''] [''A=1'', ''B=2'']) Map.empty
       = Inr ((d, newHasher plainFreezer ''tbA=1B=2xy''), Map.empty)"
    "freezeTarget plainFreezer (Target ''t'' ''b'' [String ''y'', String ''x''] [''B=2'', ''A=1'']) Map.empty
       = Inr ((d', newHasher plainFreezer ''tbB=2A=1yx''), Map.empty)"
    by auto
  then show ?thesis using i a b by (simp add: plainFreezer_def del: freezeTarget.simps)
qed

subsection \<open>Ingesting a file: what the hasher absorbs\<close>

text \<open>
  The sink of the copy receives exactly the file's bytes. The hasher receives the whole
  buffer at every call of \<open>Read\<close>, also at the last one that reports the end of the
  file: it absorbs at least one buffer length more than the file holds.
\<close>

lemma copyBuffer_sink:
  "buf \<noteq> [] \<Longrightarrow> fst (copyBuffer (rd, h) buf w) = w @ rd"
proof (induction "(rd, h)" buf w arbitrary: rd h rule: copyBuffer.induct)
  case (1 buf w)
  show ?case
  proof (cases "rd = []")
    case True
    then show ?thesis using "1.prems"
      by (subst copyBuffer.simps) (simp add: HashingReader_Read_def File_Read_def)
  next
    case False
    let ?n = "min (length buf) (length rd)"
    let ?buf' = "take ?n rd @ drop ?n buf"
    have n: "?n \<noteq> 0" using False "1.prems" by (simp add: min_def)
    have b': "?buf' \<noteq> []" using n False by auto
    have tk: "take ?n ?buf' = take ?n rd" by (simp add: min_def)
    have "fst (copyBuffer (drop ?n rd, Write h ?buf') ?buf' (w @ take ?n ?buf'))
            = (w @ take ?n ?buf') @ drop ?n rd"
      using n "1.prems" b'
      by (intro "1.hyps") (auto simp: HashingReader_Read_def File_Read_def Let_def)
    then show ?thesis
      using n "1.prems" tk
      by (subst copyBuffer.simps)
         (simp add: HashingReader_Read_def File_Read_def Let_def del: take_append)
  qed
qed

lemma copyBuffer_hasher_length:
  "buf \<noteq> [] \<Longrightarrow>
   length h + length rd + length buf \<le> length (snd (snd (copyBuffer (rd, h) buf w)))"
proof (induction "(rd, h)" buf w arbitrary: rd h rule: copyBuffer.induct)
  case (1 buf w)
  show ?case
  proof (cases "rd = []")
    case True
    then show ?thesis using "1.prems"
      by (subst copyBuffer.simps) (simp add: HashingReader_Read_def File_Read_def Write_def)
  next
    case False
    let ?n = "min (length buf) (length rd)"
    let ?buf' = "take ?n rd @ drop ?n buf"
    have n: "?n \<noteq> 0" using False "1.prems" by (simp add: min_def)
    have b': "?buf' \<noteq> []" using n False by auto
    have lb: "length ?buf' = length buf" by (simp add: min_def)
    have "length (Write h ?buf') + length (drop ?n rd) + length ?buf'
            \<le> length (snd (snd (copyBuffer (drop ?n rd, Write h ?buf') ?buf' (w @ take ?n ?buf'))))"
      using n "1.prems" b'
      by (intro "1.hyps") (auto simp: HashingReader_Read_def File_Read_def Let_def)
    then show ?thesis
      using n "1.prems" lb
      by (subst copyBuffer.simps)
         (simp add: HashingReader_Read_def File_Read_def Let_def Write_def min_def
            del: take_append split: if_splits)
  qed
qed


lemma hashFile_absorbs:
  assumes "Open y (Join y root relPath) = Inr (mode, content)" and "0 < bufLen y"
  shows "\<exists>h'. hashFile y root relPath h w = Inr (mode, w @ content, h')
           \<and> length h + length relPath + 3 + length content + bufLen y \<le> length h'"
proof -
  let ?h2 = "Write (Write h relPath)
     [byte (drop_bit 6 mode AND 7), byte (drop_bit 3 mode AND 7), byte (mode AND 7)]"
  let ?buf = "replicate (bufLen y) (CHR 0x00)"
  have ne: "?buf \<noteq> []" using assms(2) by simp
  obtain w' rd' h' where c: "copyBuffer (content, ?h2) ?buf w = (w', rd', h')"
    by (cases "copyBuffer (content, ?h2) ?buf w") auto
  have "w' = w @ content"
    using copyBuffer_sink [OF ne, of content ?h2 w] c by simp
  moreover have "length ?h2 + length content + length ?buf \<le> length h'"
    using copyBuffer_hasher_length [OF ne, of ?h2 content w] c by simp
  ultimately show ?thesis
    using assms(1) c by (simp add: hashFile_def Copy_def Write_def)
qed

text \<open>
  C2. The claim: freezing \<open>Path p\<close> absorbs the relative path, the three permission
  octets and then exactly the file's bytes. The code absorbs the path, the octets and
  then, at every \<open>Read\<close>, the whole 32768-byte copy buffer. For the file \<open>test\<close> with
  content \<open>hi!\<close> the hasher absorbs \<open>test\<close>, the octets 6, 4, 4, then \<open>hi!\<close> followed
  by 32765 zero bytes, and the same buffer once more at the end of the file. The value
  is the hex digest, a slash and the path, the entry committed under that key holds the
  file's mode and bytes, and there are no derivations.
\<close>

theorem Path_freezeArg_absorbs_buffers:
  "map_sum id fst (freezeArg pathFreezer (Path ''test'') Map.empty) =
     Inr \<lparr>Value =
            EncodeToString
              (''test'' @ [CHR 0x06, CHR 0x04, CHR 0x04] @
               (''hi!'' @ replicate 32765 (CHR 0x00)) @ (''hi!'' @ replicate 32765 (CHR 0x00)))
            @ ''/test'',
          Hash =
            ''test'' @ [CHR 0x06, CHR 0x04, CHR 0x04] @
            (''hi!'' @ replicate 32765 (CHR 0x00)) @ (''hi!'' @ replicate 32765 (CHR 0x00)),
          Derivations = []\<rparr>
   \<and> ''test'' @ [CHR 0x06, CHR 0x04, CHR 0x04] @
       (''hi!'' @ replicate 32765 (CHR 0x00)) @ (''hi!'' @ replicate 32765 (CHR 0x00))
     \<noteq> ''test'' @ [CHR 0x06, CHR 0x04, CHR 0x04] @ ''hi!''
   \<and> map_sum id (\<lambda>(argValue, c'). c' (Value argValue))
       (freezeArg pathFreezer (Path ''test'') Map.empty) = Inr (Some (fileEntry 0x1A4 ''hi!''))"
proof -
  have octets: "byte 6 = CHR 0x06" "byte 4 = CHR 0x04"
    by (simp_all add: byte_def char_of_def bit_numeral_simps bit_0)
  show ?thesis
    by (simp add: pathFreezer_def pathSys_def NewFileEntry_def hashFile_def Copy_def
        octets Write_def copyBuffer.simps HashingReader_Read_def File_Read_def Let_def)
qed

subsection \<open>Glob groups\<close>





subsection \<open>The load cache after a failed load\<close>

lemma load_in_progress:
  "cache addr = Some None \<Longrightarrow>
   load n E root cache addr = (Some (Map.empty, Some (Errorf ''Cycle in load graph'')), cache)"
  by (simp add: load.simps)

lemma load_keeps_placeholder:
  "cache a = Some None \<Longrightarrow> snd (load n E root cache addr) a = Some None"
  "cache a = Some None \<Longrightarrow> snd (ExecFile n E root as loaded cache) a = Some None"
proof (induction n E root cache addr and n E root as loaded cache
    rule: load_ExecFile.induct)
  case (1 n E root cache addr)
  show ?case
  proof (cases "cache addr")
    case None
    then have ne: "a \<noteq> addr" using "1.prems" by auto
    obtain pkg module where pm: "parseModule addr = (pkg, module)"
      by (cases "parseModule addr")
    show ?thesis
    proof (cases "resolveModule E root pkg module")
      case (Inl e)
      then show ?thesis using None pm ne "1.prems" by (simp add: load.simps)
    next
      case (Inr r)
      obtain pkgRoot filePath where r: "r = (pkgRoot, filePath)" by (cases r)
      show ?thesis
      proof (cases "ReadFile E filePath")
        case (Inl e)
        then show ?thesis using None pm ne Inr r "1.prems" by (simp add: load.simps)
      next
        case rd: (Inr data)
        show ?thesis
        proof (cases n)
          case 0
          then show ?thesis using None pm ne Inr r rd "1.prems" by (simp add: load.simps)
        next
          case (Suc m)
          have c1: "(cache(addr \<mapsto> None)) a = Some None"
            using ne "1.prems" by simp
          have "snd (ExecFile m E pkgRoot (loads (parse E addr data)) [] (cache(addr \<mapsto> None))) a
                  = Some None"
            by (rule "1.IH" [OF None refl pm [symmetric] refl Inr r [symmetric] rd Suc c1])
          then show ?thesis
            using None pm ne Inr r rd Suc
            by (cases "ExecFile m E pkgRoot (loads (parse E addr data)) [] (cache(addr \<mapsto> None))")
               (auto simp: load.simps Let_def split: option.splits)
        qed
      qed
    qed
  next
    case (Some e)
    then show ?thesis using "1.prems" by (cases e) (simp_all add: load.simps)
  qed
next
  case (2 n E root loaded cache)
  then show ?case by simp
next
  case (3 n E root a' as loaded cache)
  have l: "snd (load n E root cache a') a = Some None"
    using "3.IH"(1) "3.prems" by simp
  show ?case
  proof (cases "load n E root cache a'")
    case (Pair res cache')
    then have c': "cache' a = Some None" using l by simp
    show ?thesis
    proof (cases res)
      case None
      then show ?thesis using Pair c' by simp
    next
      case (Some ge)
      obtain g er where ge: "ge = (g, er)" by (cases ge)
      show ?thesis
      proof (cases er)
        case None
        then show ?thesis
          using Pair Some ge c' "3.IH"(2) [OF Pair [symmetric] Some ge [symmetric] None c'] 
          by simp
      next
        case (Some x)
        then show ?thesis using Pair \<open>res = Some ge\<close> ge c' by simp
      qed
    qed
  qed
qed

lemma loadAll_keeps_placeholder:
  "cache a = Some None \<Longrightarrow> loadAll n E later cache a = Some None"
proof (induction later arbitrary: cache)
  case Nil
  then show ?case by simp
next
  case (Cons x later)
  obtain root addr where x: "x = (root, addr)" by (cases x)
  have "snd (load n E root cache addr) a = Some None"
    using Cons.prems by (rule load_keeps_placeholder(1))
  then have "loadAll n E later (snd (load n E root cache addr)) a = Some None"
    by (rule Cons.IH)
  then show ?case using x by simp
qed

lemma resolveModule_error:
  "resolveModule E root pkg module = Inl e \<Longrightarrow>
   e = packageNotFoundErr pkg \<or> e = moduleNotFoundErr pkg module"
  by (auto simp: resolveModule_def Let_def split: option.splits if_splits)

text \<open>
  C10. A load of an identifier that is not in the cache and fails before the module's
  script is executed (the package is unknown, the module path is rejected, or the module
  file cannot be read) returns that failure, which is not the cycle error, and leaves the
  in-progress placeholder of the identifier in the cache. No later load removes it: after
  any run of further loads on the shared cache, from any roots, the placeholder is still
  there, and a load of the same identifier returns "Cycle in load graph".
\<close>

theorem failed_load_then_cycle:
  assumes "cache addr = None"
    and "resolveModule E root (fst (parseModule addr)) (snd (parseModule addr)) = Inl e
         \<or> (\<exists>pkgRoot filePath.
               resolveModule E root (fst (parseModule addr)) (snd (parseModule addr)) =
                 Inr (pkgRoot, filePath)
               \<and> ReadFile E filePath = Inl e)"
  shows "\<exists>failure.
           load n E root cache addr = (Some (Map.empty, Some failure), cache(addr \<mapsto> None))
         \<and> failure \<noteq> Errorf ''Cycle in load graph''
         \<and> loadAll k E later (cache(addr \<mapsto> None)) addr = Some None
         \<and> load m E root' (loadAll k E later (cache(addr \<mapsto> None))) addr =
             (Some (Map.empty, Some (Errorf ''Cycle in load graph'')),
              loadAll k E later (cache(addr \<mapsto> None)))"
proof -
  obtain pkg module where pm: "parseModule addr = (pkg, module)"
    by (cases "parseModule addr")
  have kept: "loadAll k E later (cache(addr \<mapsto> None)) addr = Some None"
    by (rule loadAll_keeps_placeholder) simp
  have cyc: "load m E root' (loadAll k E later (cache(addr \<mapsto> None))) addr =
             (Some (Map.empty, Some (Errorf ''Cycle in load graph'')),
              loadAll k E later (cache(addr \<mapsto> None)))"
    using kept by (rule load_in_progress)
  from assms(2) show ?thesis
  proof
    assume r: "resolveModule E root (fst (parseModule addr)) (snd (parseModule addr)) = Inl e"
    then have "e \<noteq> Errorf ''Cycle in load graph''"
      using resolveModule_error [of E root pkg module e] pm by auto
    moreover have "load n E root cache addr = (Some (Map.empty, Some e), cache(addr \<mapsto> None))"
      using assms(1) r pm by (simp add: load.simps)
    ultimately show ?thesis using kept cyc by blast
  next
    assume "\<exists>pkgRoot filePath.
               resolveModule E root (fst (parseModule addr)) (snd (parseModule addr)) =
                 Inr (pkgRoot, filePath)
               \<and> ReadFile E filePath = Inl e"
    then obtain pkgRoot filePath where
      r: "resolveModule E root pkg module = Inr (pkgRoot, filePath)" and
      f: "ReadFile E filePath = Inl e"
      using pm by auto
    have "load n E root cache addr =
        (Some (Map.empty,
           Some (Wrap (if IsNotExist e then Errorf ''Module not found in package'' else e)
                   ''Loading module'')), cache(addr \<mapsto> None))"
      using assms(1) r f pm by (simp add: load.simps)
    then show ?thesis using kept cyc by blast
  qed
qed

theorem failed_load_then_cycle_witness:
  "(Map.empty :: loadCache) ''lib.star'' = None
   \<and> resolveModule loaderEnv ''/root'' (fst (parseModule ''lib.star''))
         (snd (parseModule ''lib.star'')) = Inr (''/root'', ''/root/lib.star'')
   \<and> ReadFile loaderEnv ''/root/lib.star'' = Inl (NotExist ''/root/lib.star'')
   \<and> load 0 loaderEnv ''/root'' Map.empty ''lib.star'' =
       (Some (Map.empty,
          Some (Wrap (Errorf ''Module not found in package'') ''Loading module'')),
        [''lib.star'' \<mapsto> None])
   \<and> load 0 loaderEnv ''/root''
         (loadAll 1 loaderEnv [(''/root'', ''other.star'')] [''lib.star'' \<mapsto> None])
         ''lib.star'' =
       (Some (Map.empty, Some (Errorf ''Cycle in load graph'')),
        loadAll 1 loaderEnv [(''/root'', ''other.star'')] [''lib.star'' \<mapsto> None])"
proof -
  have c: "(Map.empty :: loadCache) ''lib.star'' = None" by simp
  have pm: "parseModule ''lib.star'' = ([], ''lib.star'')"
    by (simp add: parseModule_def)
  have r: "resolveModule loaderEnv ''/root'' (fst (parseModule ''lib.star''))
         (snd (parseModule ''lib.star'')) = Inr (''/root'', ''/root/lib.star'')"
    by (simp add: pm resolveModule_def loaderEnv_def HasSuffix_def)
  have f: "ReadFile loaderEnv ''/root/lib.star'' = Inl (NotExist ''/root/lib.star'')"
    by (simp add: loaderEnv_def)
  have h: "resolveModule loaderEnv ''/root'' (fst (parseModule ''lib.star''))
             (snd (parseModule ''lib.star'')) = Inl (NotExist ''/root/lib.star'')
         \<or> (\<exists>pkgRoot filePath.
               resolveModule loaderEnv ''/root'' (fst (parseModule ''lib.star''))
                 (snd (parseModule ''lib.star'')) = Inr (pkgRoot, filePath)
               \<and> ReadFile loaderEnv filePath = Inl (NotExist ''/root/lib.star''))"
    using r f by blast
  have l: "load 0 loaderEnv ''/root'' Map.empty ''lib.star'' =
       (Some (Map.empty,
          Some (Wrap (Errorf ''Module not found in package'') ''Loading module'')),
        [''lib.star'' \<mapsto> None])"
    using r f pm by (simp add: load.simps)
  show ?thesis
    using failed_load_then_cycle [OF c h, of 0 1 "[(''/root'', ''other.star'')]" 0 "''/root''"]
      c r f l
    by (simp del: loadAll.simps)
qed

subsection \<open>The immutability pass\<close>

lemma word_and_zero_bits:
  fixes a b :: FileMode
  assumes "a AND b = 0"
  shows "\<not> (bit a n \<and> bit b n)"
proof -
  have "bit (a AND b) n = bit (0 :: FileMode) n" by (simp only: assms)
  then show ?thesis by (simp add: bit_and_iff)
qed

lemma mask_facts:
  "NOT chmodBits AND (0x92 :: FileMode) = 0"
  "immutableMask AND (0x92 :: FileMode) = 0"
  "immutableMask AND NOT chmodBits = NOT chmodBits"
  by (simp_all add: chmodBits_def immutableMask_def)

lemma setMode_no_write: "setMode old (fi AND immutableMask) AND 0x92 = 0"
proof (rule bit_eqI)
  fix n
  show "bit (setMode old (fi AND immutableMask) AND 0x92) n = bit (0 :: FileMode) n"
    using word_and_zero_bits [OF mask_facts(1), of n] word_and_zero_bits [OF mask_facts(2), of n]
    by (auto simp only: setMode_def bit_and_iff bit_or_iff bit_0_eq)
qed

lemma setMode_keeps_other_bits: "setMode old m AND NOT chmodBits = old AND NOT chmodBits"
proof (rule bit_eqI)
  fix n
  show "bit (setMode old m AND NOT chmodBits) n = bit (old AND NOT chmodBits) n"
    by (auto simp only: setMode_def bit_and_iff bit_or_iff bit_not_iff)
qed

lemma mask_bits: "bit (NOT chmodBits) n \<Longrightarrow> bit immutableMask n"
proof -
  have "bit (immutableMask AND NOT chmodBits) n = bit (NOT chmodBits) n"
    by (simp only: mask_facts(3))
  then show "bit (NOT chmodBits) n \<Longrightarrow> bit immutableMask n"
    by (simp add: bit_and_iff)
qed

lemma setMode_masked:
  assumes "old = x \<or> old = x AND immutableMask" and "fi = x \<or> fi = x AND immutableMask"
  shows "setMode old (fi AND immutableMask) = x AND immutableMask"
proof (rule bit_word_eqI)
  fix n
  assume n: "n < LENGTH(32)"
  have m: "bit (NOT chmodBits) n \<longrightarrow> bit immutableMask n" using mask_bits by blast
  have c: "bit (NOT chmodBits) n \<or> bit chmodBits n"
    using n by (cases "bit chmodBits n") (auto simp: bit_not_iff)
  have c': "\<not> (bit (NOT chmodBits) n \<and> bit chmodBits n)" by (auto simp: bit_not_iff)
  show "bit (setMode old (fi AND immutableMask)) n = bit (x AND immutableMask) n"
    using assms m c c'
    by (auto simp only: setMode_def bit_and_iff bit_or_iff)
qed

lemma masked_no_write: "(x AND immutableMask) AND 0x92 = 0"
proof -
  have "x AND (immutableMask AND 0x92) = 0" by (simp only: mask_facts) simp
  then show ?thesis by (simp only: and.assoc)
qed

lemma passStep_refl: "passStep L M0 M M"
  by (simp add: passStep_def)

lemma passStep_trans:
  assumes "passStep L M0 M M1" and "passStep L M0 M1 M2"
  shows "passStep L M0 M M2"
  unfolding passStep_def
proof (intro allI conjI)
  fix i
  show "M2 i AND NOT chmodBits = M i AND NOT chmodBits"
    using assms by (simp add: passStep_def)
  show "M2 i = M i \<or> (M2 i AND 0x92 = 0 \<and> (i \<notin> L \<longrightarrow> M2 i = M0 i AND immutableMask))"
    using assms [unfolded passStep_def, rule_format, of i] by metis
qed

lemma inPass_step:
  assumes "inPass L M0 M" and "passStep L M0 M M'"
  shows "inPass L M0 M'"
  unfolding inPass_def
proof (intro allI impI)
  fix i
  assume "i \<notin> L"
  then show "M' i = M0 i \<or> M' i = M0 i AND immutableMask"
    using assms(1) [unfolded inPass_def, rule_format, of i]
      assms(2) [unfolded passStep_def, rule_format, of i]
    by metis
qed

lemma Chmod_step:
  assumes ch: "Chmod E nd (fi AND immutableMask) M = (None, M')"
    and ip: "inPass L M0 M"
    and fi: "\<And>i. target nd = Some i \<Longrightarrow> i \<notin> L \<Longrightarrow> fi = M0 i \<or> fi = M0 i AND immutableMask"
  shows "passStep L M0 M M'"
    and "\<And>i. target nd = Some i \<Longrightarrow>
           M' i AND 0x92 = 0 \<and> (i \<notin> L \<longrightarrow> M' i = M0 i AND immutableMask)"
proof -
  from ch obtain j where j: "target nd = Some j"
    and M': "M' = M(j := setMode (M j) (fi AND immutableMask))"
    by (auto simp: Chmod_def split: option.splits)
  have w: "M' j AND 0x92 = 0"
    by (simp add: M' setMode_no_write)
  have m: "j \<notin> L \<Longrightarrow> M' j = M0 j AND immutableMask"
  proof -
    assume jL: "j \<notin> L"
    have "M j = M0 j \<or> M j = M0 j AND immutableMask"
      using ip jL by (simp add: inPass_def)
    then have "setMode (M j) (fi AND immutableMask) = M0 j AND immutableMask"
      using fi [OF j jL] by (rule setMode_masked)
    then show ?thesis by (simp add: M')
  qed
  show "passStep L M0 M M'"
    unfolding passStep_def
  proof (intro allI conjI)
    fix i
    show "M' i AND NOT chmodBits = M i AND NOT chmodBits"
      by (simp add: M' setMode_keeps_other_bits)
    show "M' i = M i \<or> (M' i AND 0x92 = 0 \<and> (i \<notin> L \<longrightarrow> M' i = M0 i AND immutableMask))"
    proof (cases "i = j")
      case True
      then show ?thesis using w m by blast
    next
      case False
      then show ?thesis by (simp add: M')
    qed
  qed
  show "\<And>i. target nd = Some i \<Longrightarrow>
           M' i AND 0x92 = 0 \<and> (i \<notin> L \<longrightarrow> M' i = M0 i AND immutableMask)"
    using j w m by auto
qed

lemma passStep_keeps:
  assumes "passStep L M0 M M'"
    and "M i AND 0x92 = 0" and "i \<notin> L \<longrightarrow> M i = M0 i AND immutableMask"
  shows "M' i AND 0x92 = 0 \<and> (i \<notin> L \<longrightarrow> M' i = M0 i AND immutableMask)"
  using assms(1) [unfolded passStep_def, rule_format, of i] assms(2,3) by metis

lemma makeImmutable_pass:
  "inPass L M0 M \<Longrightarrow> linkTargets nd \<subseteq> L \<Longrightarrow>
   (\<And>i. target nd = Some i \<Longrightarrow> i \<notin> L \<Longrightarrow> fi = M0 i \<or> fi = M0 i AND immutableMask) \<Longrightarrow>
   makeImmutableHelper E nd fi M = (None, M') \<Longrightarrow>
     passStep L M0 M M'
     \<and> (\<forall>i \<in> inodes nd \<union> linkTargets nd.
           M' i AND 0x92 = 0 \<and> (i \<notin> L \<longrightarrow> M' i = M0 i AND immutableMask))"
  "inPass L M0 Ms \<Longrightarrow> inPass L M0 M \<Longrightarrow> linkTargetsOfFiles files \<subseteq> L \<Longrightarrow>
   makeImmutableFiles E files Ms M = (None, M') \<Longrightarrow>
     passStep L M0 M M'
     \<and> (\<forall>i \<in> inodesOfFiles files \<union> linkTargetsOfFiles files.
           M' i AND 0x92 = 0 \<and> (i \<notin> L \<longrightarrow> M' i = M0 i AND immutableMask))"
proof (induction E nd fi M and E files Ms M arbitrary: M' and M'
    rule: makeImmutableHelper_makeImmutableFiles.induct)
  case (1 E i files fi M)
  from "1.prems"(4) obtain M1 where
    rd: "readDirError E i M = None" and
    fs: "makeImmutableFiles E files M M = (None, M1)" and
    ch: "Chmod E (Dir i files) (fi AND immutableMask) M1 = (None, M')"
    by (auto split: option.splits prod.splits)
  have lt: "linkTargetsOfFiles files \<subseteq> L" using "1.prems"(2) by simp
  from "1.IH" [OF rd "1.prems"(1) "1.prems"(1) lt fs] have
    st1: "passStep L M0 M M1" and
    in1: "\<forall>j \<in> inodesOfFiles files \<union> linkTargetsOfFiles files.
           M1 j AND 0x92 = 0 \<and> (j \<notin> L \<longrightarrow> M1 j = M0 j AND immutableMask)"
    by blast+
  have ip1: "inPass L M0 M1" using "1.prems"(1) st1 by (rule inPass_step)
  have fi: "\<And>j. target (Dir i files) = Some j \<Longrightarrow> j \<notin> L \<Longrightarrow>
      fi = M0 j \<or> fi = M0 j AND immutableMask"
    using "1.prems"(3) by blast
  note c = Chmod_step [OF ch ip1 fi]
  have st: "passStep L M0 M M'" using st1 c(1) by (rule passStep_trans)
  have "\<forall>j \<in> inodes (Dir i files) \<union> linkTargets (Dir i files).
           M' j AND 0x92 = 0 \<and> (j \<notin> L \<longrightarrow> M' j = M0 j AND immutableMask)"
  proof
    fix j
    assume j: "j \<in> inodes (Dir i files) \<union> linkTargets (Dir i files)"
    show "M' j AND 0x92 = 0 \<and> (j \<notin> L \<longrightarrow> M' j = M0 j AND immutableMask)"
    proof (cases "j = i")
      case True
      then show ?thesis using c(2) [of i] by simp
    next
      case False
      then have "j \<in> inodesOfFiles files \<union> linkTargetsOfFiles files" using j by auto
      then have "M1 j AND 0x92 = 0" "j \<notin> L \<longrightarrow> M1 j = M0 j AND immutableMask"
        using in1 by blast+
      then show ?thesis using passStep_keeps [OF c(1)] by blast
    qed
  qed
  then show ?case using st by blast
next
  case (2 E i bs fi M)
  from "2.prems"(4) have ch: "Chmod E (File i bs) (fi AND immutableMask) M = (None, M')"
    by simp
  have fi: "\<And>j. target (File i bs) = Some j \<Longrightarrow> j \<notin> L \<Longrightarrow>
      fi = M0 j \<or> fi = M0 j AND immutableMask"
    using "2.prems"(3) by blast
  note c = Chmod_step [OF ch "2.prems"(1) fi]
  show ?case using c(1) c(2) [of i] by simp
next
  case (3 E lm t fi M)
  from "3.prems"(4) have ch: "Chmod E (Symlink lm t) (fi AND immutableMask) M = (None, M')"
    by simp
  have fi: "\<And>j. target (Symlink lm t) = Some j \<Longrightarrow> j \<notin> L \<Longrightarrow>
      fi = M0 j \<or> fi = M0 j AND immutableMask"
    using "3.prems"(3) by blast
  note c = Chmod_step [OF ch "3.prems"(1) fi]
  have "\<forall>j \<in> linkTargets (Symlink lm t).
      M' j AND 0x92 = 0 \<and> (j \<notin> L \<longrightarrow> M' j = M0 j AND immutableMask)"
  proof
    fix j
    assume "j \<in> linkTargets (Symlink lm t)"
    then have "target (Symlink lm t) = Some j" by (simp add: elem_set)
    then show "M' j AND 0x92 = 0 \<and> (j \<notin> L \<longrightarrow> M' j = M0 j AND immutableMask)"
      using c(2) [of j] by blast
  qed
  then show ?case using c(1) by simp
next
  case (4 E Ms M)
  then show ?case by (simp add: passStep_refl)
next
  case (5 E name child files Ms M)
  from "5.prems"(4) obtain M1 where
    one: "makeImmutableHelper E child (Lstat child Ms) M = (None, M1)" and
    more: "makeImmutableFiles E files Ms M1 = (None, M')"
    by (auto split: option.splits prod.splits)
  have lt1: "linkTargets child \<subseteq> L" and lt2: "linkTargetsOfFiles files \<subseteq> L"
    using "5.prems"(3) by simp_all
  have fi: "\<And>j. target child = Some j \<Longrightarrow> j \<notin> L \<Longrightarrow>
      Lstat child Ms = M0 j \<or> Lstat child Ms = M0 j AND immutableMask"
  proof -
    fix j
    assume t: "target child = Some j" and jL: "j \<notin> L"
    show "Lstat child Ms = M0 j \<or> Lstat child Ms = M0 j AND immutableMask"
    proof (cases child)
      case (File i bs)
      then show ?thesis using t jL "5.prems"(1) by (simp add: inPass_def)
    next
      case (Dir i es)
      then show ?thesis using t jL "5.prems"(1) by (simp add: inPass_def)
    next
      case (Symlink lm u)
      then have "j \<in> linkTargets child" using t by (simp add: elem_set)
      then show ?thesis using lt1 jL by blast
    qed
  qed
  from "5.IH"(1) [OF "5.prems"(2) lt1 fi one] have
    st1: "passStep L M0 M M1" and
    in1: "\<forall>j \<in> inodes child \<union> linkTargets child.
           M1 j AND 0x92 = 0 \<and> (j \<notin> L \<longrightarrow> M1 j = M0 j AND immutableMask)"
    by blast+
  have ip1: "inPass L M0 M1" using "5.prems"(2) st1 by (rule inPass_step)
  from "5.IH"(2) [OF one [symmetric] refl "5.prems"(1) ip1 lt2 more] have
    st2: "passStep L M0 M1 M'" and
    in2: "\<forall>j \<in> inodesOfFiles files \<union> linkTargetsOfFiles files.
           M' j AND 0x92 = 0 \<and> (j \<notin> L \<longrightarrow> M' j = M0 j AND immutableMask)"
    by blast+
  have st: "passStep L M0 M M'" using st1 st2 by (rule passStep_trans)
  have "\<forall>j \<in> inodesOfFiles ((name, child) # files) \<union> linkTargetsOfFiles ((name, child) # files).
           M' j AND 0x92 = 0 \<and> (j \<notin> L \<longrightarrow> M' j = M0 j AND immutableMask)"
  proof
    fix j
    assume "j \<in> inodesOfFiles ((name, child) # files)
               \<union> linkTargetsOfFiles ((name, child) # files)"
    then consider "j \<in> inodes child \<union> linkTargets child"
      | "j \<in> inodesOfFiles files \<union> linkTargetsOfFiles files"
      by auto
    then show "M' j AND 0x92 = 0 \<and> (j \<notin> L \<longrightarrow> M' j = M0 j AND immutableMask)"
    proof cases
      case 1
      then have "M1 j AND 0x92 = 0" "j \<notin> L \<longrightarrow> M1 j = M0 j AND immutableMask"
        using in1 by blast+
      then show ?thesis using passStep_keeps [OF st2] by blast
    next
      case 2
      then show ?thesis using in2 by blast
    qed
  qed
  then show ?case using st by blast
qed

lemma Chmod_frame:
  "Chmod E nd m M = (r, M') \<Longrightarrow> target nd \<noteq> Some i \<Longrightarrow> M' i = M i"
  by (auto simp: Chmod_def split: option.splits)

lemma makeImmutable_frame:
  "makeImmutableHelper E nd fi M = (r, M') \<Longrightarrow> i \<notin> inodes nd \<union> linkTargets nd \<Longrightarrow>
     M' i = M i"
  "makeImmutableFiles E files Ms M = (r, M') \<Longrightarrow>
     i \<notin> inodesOfFiles files \<union> linkTargetsOfFiles files \<Longrightarrow> M' i = M i"
proof (induction E nd fi M and E files Ms M arbitrary: r M' and r M'
    rule: makeImmutableHelper_makeImmutableFiles.induct)
  case (1 E j files fi M)
  show ?case
  proof (cases "readDirError E j M")
    case (Some er)
    then show ?thesis using "1.prems" by simp
  next
    case None
    obtain r1 M1 where fs: "makeImmutableFiles E files M M = (r1, M1)"
      by (cases "makeImmutableFiles E files M M")
    have "i \<notin> inodesOfFiles files \<union> linkTargetsOfFiles files" and ij: "i \<noteq> j"
      using "1.prems"(2) by auto
    then have m1: "M1 i = M i" using "1.IH" [OF None fs] by blast
    show ?thesis
    proof (cases r1)
      case (Some er)
      then show ?thesis using "1.prems"(1) None fs m1 by simp
    next
      case rn: None
      then have "Chmod E (Dir j files) (fi AND immutableMask) M1 = (r, M')"
        using "1.prems"(1) None fs by simp
      then have "M' i = M1 i" using ij by (intro Chmod_frame) auto
      then show ?thesis using m1 by simp
    qed
  qed
next
  case (2 E j bs fi M)
  then show ?case by (auto dest: Chmod_frame [where i = i])
next
  case (3 E lm t fi M)
  then have "target (Symlink lm t) \<noteq> Some i" by (simp add: elem_set)
  then show ?case using "3.prems"(1) by (auto dest: Chmod_frame [where i = i])
next
  case (4 E Ms M)
  then show ?case by simp
next
  case (5 E name child files Ms M)
  obtain r1 M1 where one: "makeImmutableHelper E child (Lstat child Ms) M = (r1, M1)"
    by (cases "makeImmutableHelper E child (Lstat child Ms) M")
  have a: "i \<notin> inodes child \<union> linkTargets child"
    and b: "i \<notin> inodesOfFiles files \<union> linkTargetsOfFiles files"
    using "5.prems"(2) by auto
  have m1: "M1 i = M i" using "5.IH"(1) [OF one a] .
  show ?case
  proof (cases r1)
    case (Some er)
    then show ?thesis using "5.prems"(1) one m1 by simp
  next
    case None
    then have more: "makeImmutableFiles E files Ms M1 = (r, M')"
      using "5.prems"(1) one by simp
    show ?thesis using "5.IH"(2) [OF one [symmetric] None more b] m1 by simp
  qed
qed

lemma makeImmutableHelper_errors:
  "readDirError E i M = Some er \<Longrightarrow> makeImmutableHelper E (Dir i files) fi M = (Some er, M)"
  "makeImmutableHelper E (Symlink lm None) fi M = (Some (NotExist ''chmod''), M)"
  "chmodError E i M = Some er \<Longrightarrow> makeImmutableHelper E (File i bs) fi M = (Some er, M)"
  "makeImmutableHelper E child (Lstat child Ms) M = (Some er, M1) \<Longrightarrow>
     makeImmutableFiles E ((name, child) # files) Ms M = (Some er, M1)"
  by (simp_all add: Chmod_def)

text \<open>
  C4, as claimed, fails: the pass computes \<open>old AND mask\<close>, so it clears the write bits
  and leaves the read and execute bits as they were; it does not set them. A file of mode
  0644 (\<open>0x1A4\<close>) ends with mode 0444 (\<open>0x124\<close>), where the claimed
  \<open>(old AND NOT 0777) OR 0555\<close> would be 0555 (\<open>0x16D\<close>).
\<close>

theorem makeImmutable_keeps_read_execute:
  "makeImmutableHelper shellEnv (File 1 ''hi'')
       (Lstat (File 1 ''hi'') ((\<lambda>i. 0)(1 := 0x1A4))) ((\<lambda>i. 0)(1 := 0x1A4)) =
     (None, (\<lambda>i. 0)(1 := 0x124))
   \<and> ((0x1A4 :: FileMode) AND NOT 0x1FF) OR 0x16D = 0x16D
   \<and> (0x124 :: FileMode) \<noteq> 0x16D
   \<and> fst (makeImmutable shellEnv ''/tmp/7/out''
        \<lparr>cacheFiles = Map.empty, tmpFiles = [''/tmp/7/out'' \<mapsto> File 1 ''hi''],
         inodeMode = (\<lambda>i. 0)(1 := 0x1A4), events = []\<rparr>) = None
   \<and> inodeMode (snd (makeImmutable shellEnv ''/tmp/7/out''
        \<lparr>cacheFiles = Map.empty, tmpFiles = [''/tmp/7/out'' \<mapsto> File 1 ''hi''],
         inodeMode = (\<lambda>i. 0)(1 := 0x1A4), events = []\<rparr>)) 1 = 0x124"
  by (simp add: makeImmutable_def Chmod_def setMode_def chmodBits_def immutableMask_def
      shellEnv_def)

text \<open>
  A symbolic link is not skipped: \<^verbatim>\<open>ReadDir\<close> reports the link's own mode and
  \<^verbatim>\<open>os.Chmod\<close> follows the link. In the directory with the files \<open>a\<close> (0600), \<open>b\<close> (0644)
  and the link \<open>z-link\<close> to \<open>a\<close>, the pass leaves \<open>b\<close> at 0444 and the directory at
  0555, and \<open>a\<close>, first set to 0400, at 0555 through the link.
\<close>

lemma makeImmutable_through_link:
  "fst (makeImmutableHelper shellEnv linkedTree (Lstat linkedTree linkedModes) linkedModes)
     = None"
  "snd (makeImmutableHelper shellEnv linkedTree (Lstat linkedTree linkedModes) linkedModes) 10
     = 0x8000016D"
  "snd (makeImmutableHelper shellEnv linkedTree (Lstat linkedTree linkedModes) linkedModes) 11
     = 0x16D"
  "snd (makeImmutableHelper shellEnv linkedTree (Lstat linkedTree linkedModes) linkedModes) 12
     = 0x124"
  by (simp_all add: linkedTree_def linkedModes_def Chmod_def setMode_def chmodBits_def
      immutableMask_def shellEnv_def)

text \<open>
  C4, amended. When the immutability pass over the tree at the output path returns without
  an error, every file and directory of the tree, and every file or directory that a
  symbolic link of the tree resolves to, has no write bit left: \<open>mode AND 0222 = 0\<close>. A
  file or directory of the tree that no symbolic link of the tree resolves to has the mode
  \<open>old AND (NOT 0777 OR 0555)\<close>: the three write bits are cleared, the read and execute
  bits keep the value they had, and the type bits and all bits above the permission bits
  are unchanged. Inodes outside the tree that no link of the tree resolves to keep their
  mode, and no inode changes a bit other than the permission, setuid, setgid and sticky
  bits. (0777 is \<open>0x1FF\<close>, 0555 is \<open>0x16D\<close>, 0222 is \<open>0x92\<close>. The pass stops with
  an error when a directory cannot be listed, a mode cannot be changed or a link dangles:
  \<open>makeImmutableHelper_errors\<close>.)
\<close>

theorem makeImmutableHelper_clears_write_bits:
  assumes "makeImmutableHelper E nd (Lstat nd M) M = (None, M')"
  shows "(\<forall>i \<in> inodes nd \<union> linkTargets nd. M' i AND 0x92 = 0)
       \<and> (\<forall>i \<in> inodes nd - linkTargets nd. M' i = M i AND (NOT 0x1FF OR 0x16D))
       \<and> (\<forall>i. i \<notin> inodes nd \<union> linkTargets nd \<longrightarrow> M' i = M i)
       \<and> (\<forall>i. M' i AND NOT chmodBits = M i AND NOT chmodBits)"
proof -
  have ip: "inPass (linkTargets nd) M M" by (simp add: inPass_def)
  have fi: "\<And>i. target nd = Some i \<Longrightarrow> i \<notin> linkTargets nd \<Longrightarrow>
      Lstat nd M = M i \<or> Lstat nd M = M i AND immutableMask"
  proof -
    fix i
    assume "target nd = Some i" and "i \<notin> linkTargets nd"
    then show "Lstat nd M = M i \<or> Lstat nd M = M i AND immutableMask"
      by (cases nd) (simp_all add: elem_set)
  qed
  from makeImmutable_pass(1) [OF ip subset_refl fi assms] have
    st: "passStep (linkTargets nd) M M M'" and
    inn: "\<forall>i \<in> inodes nd \<union> linkTargets nd.
           M' i AND 0x92 = 0 \<and> (i \<notin> linkTargets nd \<longrightarrow> M' i = M i AND immutableMask)"
    by blast+
  have a: "\<forall>i \<in> inodes nd \<union> linkTargets nd. M' i AND 0x92 = 0"
    using inn by blast
  have b: "\<forall>i \<in> inodes nd - linkTargets nd. M' i = M i AND (NOT 0x1FF OR 0x16D)"
    using inn unfolding immutableMask_def by blast
  have c: "\<forall>i. i \<notin> inodes nd \<union> linkTargets nd \<longrightarrow> M' i = M i"
    using makeImmutable_frame(1) [OF assms] by blast
  have d: "\<forall>i. M' i AND NOT chmodBits = M i AND NOT chmodBits"
    using st by (simp add: passStep_def)
  show ?thesis using a b c d by blast
qed

theorem makeImmutableHelper_clears_write_bits_witness:
  "makeImmutableHelper shellEnv linkedTree (Lstat linkedTree linkedModes) linkedModes =
     (None, snd (makeImmutableHelper shellEnv linkedTree (Lstat linkedTree linkedModes)
                   linkedModes))
   \<and> inodes linkedTree = {10, 11, 12}
   \<and> linkTargets linkedTree = {11}
   \<and> snd (makeImmutableHelper shellEnv linkedTree (Lstat linkedTree linkedModes) linkedModes)
        12 = 0x1A4 AND (NOT 0x1FF OR 0x16D)
   \<and> snd (makeImmutableHelper shellEnv linkedTree (Lstat linkedTree linkedModes) linkedModes)
        12 = 0x124
   \<and> snd (makeImmutableHelper shellEnv linkedTree (Lstat linkedTree linkedModes) linkedModes)
        11 AND 0x92 = 0
   \<and> snd (makeImmutableHelper shellEnv linkedTree (Lstat linkedTree linkedModes) linkedModes)
        11 = 0x16D
   \<and> snd (makeImmutableHelper shellEnv linkedTree (Lstat linkedTree linkedModes) linkedModes)
        13 = linkedModes 13"
proof -
  let ?run = "makeImmutableHelper shellEnv linkedTree (Lstat linkedTree linkedModes) linkedModes"
  have ok: "?run = (None, snd ?run)"
    using makeImmutable_through_link(1) by (simp add: prod_eq_iff)
  have ino: "inodes linkedTree = {10, 11, 12}" and lt: "linkTargets linkedTree = {11}"
    by (auto simp: linkedTree_def)
  note facts = makeImmutableHelper_clears_write_bits [OF ok]
  have w: "snd ?run 11 AND 0x92 = 0"
    using facts ino lt by blast
  have b: "snd ?run 12 = linkedModes 12 AND (NOT 0x1FF OR 0x16D)"
    using facts ino lt by auto
  have b': "snd ?run 12 = 0x1A4 AND (NOT 0x1FF OR 0x16D)"
    using b by (simp add: linkedModes_def)
  have o: "snd ?run 13 = linkedModes 13"
    using facts ino lt by auto
  show ?thesis
    using ok ino lt w b' o makeImmutable_through_link(3,4) by simp
qed

subsection \<open>A builder that exits with status 0 and creates no output\<close>

lemma MoveFile_error_wrapped:
  "MoveFile E fsc src dst s = (Some er, s') \<Longrightarrow> \<not> IsNotExist er"
  by (auto simp: MoveFile_def split: sum.splits prod.splits option.splits)

lemma envCopy_eq:
  fixes env :: "string list"
  shows "(let envCopy = replicate (length env + 2) [];
              envCopy = copy (take (length envCopy - 1) envCopy) env
                          @ drop (length envCopy - 1) envCopy;
              envCopy = envCopy[length envCopy - 1 := x];
              envCopy = envCopy[length envCopy - 2 := y]
          in g envCopy) = g (env @ [y, x])"
proof -
  have a: "copy (take (length env + 2 - 1) (replicate (length env + 2) [])) env
             @ drop (length env + 2 - 1) (replicate (length env + 2) []) = env @ [[], []]"
    by (simp add: copy_def min_def del: replicate.simps) simp
  show ?thesis
    unfolding Let_def length_replicate a
    by (simp add: list_update_append)
qed

lemma Build_unfold:
  "Build E fsc d tmpDirBase s =
     (case TempDir E tmpDirBase s of
        Inl er \<Rightarrow> (Some (Wrap er ''Creating temporary build directory''), s)
      | Inr tmpDir \<Rightarrow>
          (case cmdRun E (DBuilder d) (DArgs d)
                  (DEnv d @ [''cachePath='' @ fsc_root fsc,
                             ''out='' @ joinPath tmpDir (randString E s)])
                  tmpDir (cacheFiles s) (tmpFiles s) (inodeMode s) of
             (runErr, output, tmp1, modes1) \<Rightarrow>
               (case
                  (case runErr of
                     Some er \<Rightarrow>
                       (Some (Wrap er (''OUTPUT: '' @ output)),
                        s\<lparr>tmpFiles := tmp1, inodeMode := modes1,
                          events := events s @ [Invoked (ID d)]\<rparr>)
                   | None \<Rightarrow>
                       (case makeImmutable E (joinPath tmpDir (randString E s))
                               (s\<lparr>tmpFiles := tmp1, inodeMode := modes1,
                                  events := events s @ [Invoked (ID d)]\<rparr>) of
                          (Some er, s2) \<Rightarrow> (Some (Wrap er ''Chmodding output artifact''), s2)
                        | (None, s2) \<Rightarrow>
                            (case MoveFile E fsc (joinPath tmpDir (randString E s)) (ID d) s2 of
                               (Some er, s3) \<Rightarrow>
                                 if IsNotExist er
                                 then (Some (Errorf
                                    ''Builder succeeded but didn't create output file''), s3)
                                 else (Some (Wrap er ''Moving output file into cache''), s3)
                             | (None, s3) \<Rightarrow> (None, s3)))) of
                  (res, s4) \<Rightarrow> (res, RemoveAll tmpDir s4))))"
  unfolding Build_def Let_def envCopy_eq [where g = "\<lambda>z. z", unfolded Let_def]
  by (rule refl)

lemma Build_never_reports_missing_output:
  "fst (Build E fsc d tmpDirBase s) \<noteq>
     Some (Errorf ''Builder succeeded but didn't create output file'')"
  by (auto simp: Build_unfold dest: MoveFile_error_wrapped
      split: prod.splits option.splits sum.splits if_splits)

lemma Build_missing_output:
  assumes "TempDir E tmpDirBase s = Inr tmpDir"
    and "cmdRun E (DBuilder d) (DArgs d)
           (DEnv d @ [''cachePath='' @ fsc_root fsc,
                      ''out='' @ joinPath tmpDir (randString E s)])
           tmpDir (cacheFiles s) (tmpFiles s) (inodeMode s) = (None, output, tmp1, modes1)"
    and "tmp1 (joinPath tmpDir (randString E s)) = None"
  shows "fst (Build E fsc d tmpDirBase s) =
     Some (Wrap (NotExist (joinPath tmpDir (randString E s))) ''Chmodding output artifact'')"
  using assms by (simp add: Build_unfold makeImmutable_def)

text \<open>
  C3. The claim: when the builder exits with status 0 and the output path does not exist,
  \<open>Build\<close> returns the error "Builder succeeded but didn't create output file". The
  code runs \<open>makeImmutable\<close> on the output path first, whose \<open>Stat\<close> fails: with the
  builder \<open>/bin/true\<close>, \<open>Build\<close> returns the wrapped error "Chmodding output artifact"
  after one run of the builder. (\<open>Build_never_reports_missing_output\<close>: no input makes
  \<open>Build\<close> return the dedicated error, since \<open>MoveFile\<close> wraps every error.)
\<close>

theorem Build_no_output_is_chmod_error:
  "fst (Build shellEnv homeCache (Derivation ''68-t'' [] [] ''/bin/true'' [] []) ''/tmp''
          emptyDisk) =
     Some (Wrap (NotExist ''/tmp/7/00000000075bcd15'') ''Chmodding output artifact'')
   \<and> fst (Build shellEnv homeCache (Derivation ''68-t'' [] [] ''/bin/true'' [] []) ''/tmp''
          emptyDisk) \<noteq>
     Some (Errorf ''Builder succeeded but didn't create output file'')
   \<and> events (snd (Build shellEnv homeCache (Derivation ''68-t'' [] [] ''/bin/true'' [] [])
          ''/tmp'' emptyDisk)) = [Invoked ''68-t'']"
  by (simp add: Build_unfold makeImmutable_def shellEnv_def emptyDisk_def
      joinPath_def RemoveAll_def)

subsection \<open>Cache hits and rebuilds\<close>















end
